theory Spec2Isabelle
  imports Main
begin

section \<open>Data model\<close>

text \<open>
  The program handles Route 53 data as Python dictionaries. A resource record set
  returned by the provider has the keys \<open>Name\<close> and \<open>Type\<close>, carries the key
  \<open>AliasTarget\<close> only when it is an alias record, and may carry further keys
  (\<open>TTL\<close>, \<open>ResourceRecords\<close>, \<open>SetIdentifier\<close>, ...) that the program never reads;
  they are kept, uninterpreted, in \<open>Other\<close>. An alias target always has its three
  members.
\<close>

record alias_target =
  HostedZoneId :: string
  EvaluateTargetHealth :: bool
  DNSName :: string

record r53_record =
  Name :: string
  Type :: string
  AliasTarget :: "alias_target option"
  Other :: "(string \<times> string) list"

record hosted_zone =
  zone_Id :: string
  zone_Name :: string

text \<open>
  Uncaught exceptions and process exits that the functions below can end in
  (\<^verbatim>\<open>exit(1)\<close> raises \<^verbatim>\<open>SystemExit\<close>).
\<close>

datatype error = KeyError | IndexError | TypeError | SystemExit

text \<open>
  A read call to the provider returns its answer or raises \<^verbatim>\<open>ClientError\<close>, the one
  exception the program catches.
\<close>

datatype 'a reply = Reply 'a | ClientErrorRaised

subsection \<open>Strings\<close>

definition endswith_dot :: "string \<Rightarrow> bool" where
  "endswith_dot s = (s \<noteq> [] \<and> last s = CHR ''.'')"

text \<open>\<^verbatim>\<open>if not s.endswith('.'): s += '.'\<close>\<close>

definition with_trailing_dot :: "string \<Rightarrow> string" where
  "with_trailing_dot s = (if \<not> endswith_dot s then s @ ''.'' else s)"

section \<open>Keep list\<close>

text \<open>
  \<^verbatim>\<open>KEEP_LIST\<close> is a global list that \<^verbatim>\<open>expand_keep_list\<close> rewrites in place; the model
  takes the list and returns the new one.
\<close>

definition expand_keep_list :: "string \<Rightarrow> string list \<Rightarrow> string list" where
  "expand_keep_list zone_name KEEP_LIST =
     (let zone_name = with_trailing_dot zone_name
      in map (\<lambda>x. x @ ''.'' @ zone_name) KEEP_LIST)"

section \<open>Record filter of the delete workflow\<close>

text \<open>
  The body of the \<^verbatim>\<open>for record in record_set\<close> loop of \<^verbatim>\<open>r53_cleanup\<close> either appends
  the record to \<^verbatim>\<open>to_delete\<close> or logs why it is skipped. \<open>verdict\<close> names the branch
  taken, one constructor per log message.
\<close>

datatype verdict =
  ToBeDeleted
  | SkipIsZone
  | SkipAliasMismatch
  | SkipNoAliasTarget
  | SkipInKeepList
  | SkipRecordType

definition examine :: "hosted_zone \<Rightarrow> string list \<Rightarrow> string \<Rightarrow> r53_record \<Rightarrow> verdict" where
  "examine zone KEEP_LIST target_alias record =
     (let record_name = Name record; record_type = Type record in
      if record_type = ''A'' then
        if record_name = zone_Name zone then SkipIsZone
        else if record_name \<notin> set KEEP_LIST then
          (case AliasTarget record of
             Some alias \<Rightarrow>
               (let dns_name = DNSName alias in
                if dns_name = target_alias then ToBeDeleted else SkipAliasMismatch)
           | None \<Rightarrow> SkipNoAliasTarget)
        else SkipInKeepList
      else SkipRecordType)"

text \<open>The loop itself, with \<^verbatim>\<open>to_delete\<close> as the accumulator it appends to.\<close>

fun filter_loop ::
  "hosted_zone \<Rightarrow> string list \<Rightarrow> string \<Rightarrow> r53_record list \<Rightarrow> r53_record list \<Rightarrow> r53_record list"
where
  "filter_loop zone KEEP_LIST target_alias [] to_delete = to_delete"
| "filter_loop zone KEEP_LIST target_alias (record # record_set) to_delete =
     filter_loop zone KEEP_LIST target_alias record_set
       (if examine zone KEEP_LIST target_alias record = ToBeDeleted
        then to_delete @ [record] else to_delete)"

text \<open>Lines 175 to 199: normalise the target alias, then run the loop from an empty list.\<close>

definition candidates ::
  "hosted_zone \<Rightarrow> string list \<Rightarrow> string \<Rightarrow> r53_record list \<Rightarrow> r53_record list"
where
  "candidates zone KEEP_LIST target_alias record_set =
     filter_loop zone KEEP_LIST (with_trailing_dot target_alias) record_set []"

section \<open>Change batcher\<close>

text \<open>
  What \<^verbatim>\<open>change_resource_record_sets\<close> is called with: a zone id and a change batch
  of actions on minimal resource record descriptors.
\<close>

datatype action = UPSERT | DELETE

record resource_record_set =
  rrs_AliasTarget :: alias_target
  rrs_Type :: string
  rrs_Name :: string

record change =
  Action :: action
  ResourceRecordSet :: resource_record_set

record change_batch =
  Comment :: string
  Changes :: "change list"

record request =
  req_HostedZoneId :: string
  ChangeBatch :: change_batch

text \<open>
  The provider either accepts a request or raises \<^verbatim>\<open>ClientError\<close>. Its answer may
  depend on the request and on how many requests the client has already sent.
\<close>

type_synonym change_api = "nat \<Rightarrow> request \<Rightarrow> bool"

definition batch_size :: nat where
  "batch_size = 100"

text \<open>\<^verbatim>\<open>xs[start:end:1]\<close> for \<open>0 \<le> start\<close> and \<open>0 \<le> end\<close>.\<close>

definition slice :: "'a list \<Rightarrow> nat \<Rightarrow> nat \<Rightarrow> 'a list" where
  "slice xs start end = take (end - start) (drop start xs)"

text \<open>
  \<^verbatim>\<open>end_record = start_record + batch_size\<close>, lowered to \<^verbatim>\<open>number_of_records\<close> when it
  is beyond it.
\<close>

definition end_of :: "nat \<Rightarrow> nat \<Rightarrow> nat" where
  "end_of number_of_records start_record =
     (let end_record = start_record + batch_size in
      if end_record > number_of_records then number_of_records else end_record)"

text \<open>
  The inner \<^verbatim>\<open>for record in records_to_process\<close> loop. \<^verbatim>\<open>record['AliasTarget']\<close>
  raises \<^verbatim>\<open>KeyError\<close> on a record without that key.
\<close>

definition describe :: "r53_record \<Rightarrow> error + resource_record_set" where
  "describe record =
     (case AliasTarget record of
        None \<Rightarrow> Inl KeyError
      | Some alias \<Rightarrow>
          Inr \<lparr>rrs_AliasTarget =
                 \<lparr>HostedZoneId = HostedZoneId alias,
                  EvaluateTargetHealth = EvaluateTargetHealth alias,
                  DNSName = DNSName alias\<rparr>,
               rrs_Type = Type record,
               rrs_Name = Name record\<rparr>)"

fun build_change_set :: "action \<Rightarrow> r53_record list \<Rightarrow> change list \<Rightarrow> error + change list" where
  "build_change_set act [] change_set = Inr change_set"
| "build_change_set act (record # records) change_set =
     (case describe record of
        Inl e \<Rightarrow> Inl e
      | Inr resource_record_set \<Rightarrow>
          build_change_set act records
            (change_set @ [\<lparr>Action = act, ResourceRecordSet = resource_record_set\<rparr>]))"

text \<open>
  \<^verbatim>\<open>zone_id = records_to_process[0]['AliasTarget']['HostedZoneId']\<close>: \<^verbatim>\<open>IndexError\<close> on
  an empty slice, \<^verbatim>\<open>KeyError\<close> on a first record without alias target.
\<close>

definition first_zone_id :: "r53_record list \<Rightarrow> error + string" where
  "first_zone_id records_to_process =
     (case records_to_process of
        [] \<Rightarrow> Inl IndexError
      | record # _ \<Rightarrow>
          (case AliasTarget record of
             None \<Rightarrow> Inl KeyError
           | Some alias \<Rightarrow> Inr (HostedZoneId alias)))"

text \<open>One pass of the \<^verbatim>\<open>while\<close> body up to the provider call: the request it builds.\<close>

definition build_request :: "action \<Rightarrow> string \<Rightarrow> r53_record list \<Rightarrow> error + request" where
  "build_request act comment records_to_process =
     (case first_zone_id records_to_process of
        Inl e \<Rightarrow> Inl e
      | Inr zone_id \<Rightarrow>
          (case build_change_set act records_to_process [] of
             Inl e \<Rightarrow> Inl e
           | Inr change_set \<Rightarrow>
               Inr \<lparr>req_HostedZoneId = zone_id,
                    ChangeBatch = \<lparr>Comment = comment, Changes = change_set\<rparr>\<rparr>))"

text \<open>
  The \<^verbatim>\<open>while records_processed < number_of_records\<close> loop, which \<^verbatim>\<open>delete_records\<close>
  and \<^verbatim>\<open>restore_deleted_records\<close> both contain, differing in the action and the
  comment only. \<open>sent\<close> is the list of requests issued so far; a request that the
  provider rejects has been issued, and ends the process with \<^verbatim>\<open>exit(1)\<close>.
\<close>

function batch_loop ::
  "action \<Rightarrow> string \<Rightarrow> change_api \<Rightarrow> r53_record list \<Rightarrow> nat \<Rightarrow> nat \<Rightarrow> request list
     \<Rightarrow> request list \<times> (error + unit)"
where
  "batch_loop act comment api records start_record records_processed sent =
     (if records_processed < length records then
        (case build_request act comment
                (slice records start_record (end_of (length records) start_record)) of
           Inl e \<Rightarrow> (sent, Inl e)
         | Inr req \<Rightarrow>
             if api (length sent) req then
               batch_loop act comment api records
                 (end_of (length records) start_record)
                 (records_processed + (end_of (length records) start_record - start_record))
                 (sent @ [req])
             else (sent @ [req], Inl SystemExit))
      else (sent, Inr ()))"
  by pat_completeness auto

termination
proof (relation "measure (\<lambda>(act, comment, api, records, start_record, records_processed, sent).
                            length records - records_processed)")
  show "wf (measure (\<lambda>(act, comment, api, records, start_record, records_processed, sent).
                            length records - records_processed))"
    by simp
next
  fix act :: action and comment :: string and api :: change_api
    and records :: "r53_record list" and start_record records_processed :: nat
    and sent :: "request list" and req :: request
  assume more: "records_processed < length records"
    and built: "build_request act comment
                  (slice records start_record (end_of (length records) start_record)) = Inr req"
  from built have "slice records start_record (end_of (length records) start_record) \<noteq> []"
    by (auto simp: build_request_def first_zone_id_def)
  then have "start_record < end_of (length records) start_record"
    by (cases "start_record < end_of (length records) start_record") (simp_all add: slice_def)
  with more
  show "((act, comment, api, records, end_of (length records) start_record,
          records_processed + (end_of (length records) start_record - start_record),
          sent @ [req]),
         (act, comment, api, records, start_record, records_processed, sent))
        \<in> measure (\<lambda>(act, comment, api, records, start_record, records_processed, sent).
                            length records - records_processed)"
    by simp
qed

text \<open>\<^verbatim>\<open>delete_records\<close>: the loop from the start of the list, nothing sent yet.\<close>

definition delete_records :: "change_api \<Rightarrow> r53_record list \<Rightarrow> request list \<times> (error + unit)" where
  "delete_records api record_list =
     batch_loop DELETE ''Deleting resource records'' api record_list 0 0 []"

text \<open>Lines 86 to 121 of \<^verbatim>\<open>restore_deleted_records\<close>, once the records are loaded.\<close>

definition restore_records :: "change_api \<Rightarrow> r53_record list \<Rightarrow> request list \<times> (error + unit)" where
  "restore_records api records =
     batch_loop UPSERT ''Restoring resource records'' api records 0 0 []"

section \<open>Provider, zone resolver and record lister\<close>

record page =
  ResourceRecordSets :: "r53_record list"
  IsTruncated :: bool
  NextRecordName :: string

record provider =
  list_hosted_zones :: "hosted_zone list reply"
  get_hosted_zone :: "string \<Rightarrow> hosted_zone reply"
  list_resource_record_sets :: "string \<Rightarrow> string option \<Rightarrow> page reply"
  change_resource_record_sets :: change_api

definition get_hosted_zone_list :: "provider \<Rightarrow> hosted_zone list option" where
  "get_hosted_zone_list p =
     (case list_hosted_zones p of
        Reply zones \<Rightarrow> Some zones
      | ClientErrorRaised \<Rightarrow> None)"

text \<open>
  The \<^verbatim>\<open>for zone in zone_list\<close> loop of \<^verbatim>\<open>get_hosted_zone_by_name\<close>: it stops at the
  first zone of that name whose lookup succeeds, and goes on after a failed lookup.
\<close>

fun zone_loop :: "provider \<Rightarrow> string \<Rightarrow> hosted_zone list \<Rightarrow> hosted_zone option" where
  "zone_loop p zone_name [] = None"
| "zone_loop p zone_name (zone # zone_list) =
     (if zone_name = zone_Name zone then
        (case get_hosted_zone p (zone_Id zone) of
           Reply result \<Rightarrow> Some result
         | ClientErrorRaised \<Rightarrow> zone_loop p zone_name zone_list)
      else zone_loop p zone_name zone_list)"

definition get_hosted_zone_by_name :: "provider \<Rightarrow> string \<Rightarrow> hosted_zone option" where
  "get_hosted_zone_by_name p zone_name =
     (let zone_name = with_trailing_dot zone_name in
      case get_hosted_zone_list p of
        None \<Rightarrow> None
      | Some zone_list \<Rightarrow> zone_loop p zone_name zone_list)"

text \<open>
  The \<^verbatim>\<open>while isTruncated\<close> loop of \<^verbatim>\<open>get_all_records_in_zone\<close>. Nothing bounds the
  number of pages a provider reports, so the loop need not end; \<open>None\<close> is the run
  that never returns. The \<^verbatim>\<open>except\<close> clause encloses the whole loop and is followed
  by \<^verbatim>\<open>return resource_record_sets\<close>.
\<close>

partial_function (option) page_loop ::
  "provider \<Rightarrow> string \<Rightarrow> page \<Rightarrow> r53_record list \<Rightarrow> r53_record list option"
where
  "page_loop p zone_id current_set resource_record_sets =
     (if IsTruncated current_set then
        (case list_resource_record_sets p zone_id (Some (NextRecordName current_set)) of
           Reply next_set \<Rightarrow>
             page_loop p zone_id next_set (resource_record_sets @ ResourceRecordSets next_set)
         | ClientErrorRaised \<Rightarrow> Some resource_record_sets)
      else Some resource_record_sets)"

definition get_all_records_in_zone :: "provider \<Rightarrow> string \<Rightarrow> r53_record list option" where
  "get_all_records_in_zone p zone_id =
     (case list_resource_record_sets p zone_id None of
        Reply current_set \<Rightarrow> page_loop p zone_id current_set ([] @ ResourceRecordSets current_set)
      | ClientErrorRaised \<Rightarrow> Some [])"

section \<open>Snapshot, delete workflow and restore workflow\<close>

text \<open>
  The YAML library is outside the program and is a parameter. \<^verbatim>\<open>yaml.safe_dump(data,
  stream)\<close> hands the document it emits to \<^verbatim>\<open>stream.write\<close>: as text (\<^verbatim>\<open>str\<close>) when no
  encoding is asked for, which is the library's default under Python 3, and as encoded
  bytes under Python 2, where the default encoding is utf-8. No call is without a
  write: the document of the empty list is \<^verbatim>\<open>[]\<close> and a line end. \<open>load\<close> reads the
  contents of a file back, with \<open>None\<close> for contents that are not a list of records.
\<close>

datatype 'f emitted = Text 'f | Bytes 'f

record 'f yaml =
  safe_dump :: "r53_record list \<Rightarrow> 'f emitted"
  load :: "'f \<Rightarrow> r53_record list option"

text \<open>
  The file system maps paths to contents; a file just created is empty. \<open>events\<close>
  lists, in the order they happen, the file operations and the change requests.
\<close>

datatype 'f contents = Empty | Document 'f

datatype 'f event =
  Created string
  | Dumped string 'f
  | Renamed string string
  | Submitted request

record 'f world =
  files :: "string \<rightharpoonup> 'f contents"
  events :: "'f event list"

definition rename ::
  "string \<Rightarrow> string \<Rightarrow> (string \<rightharpoonup> 'f contents) \<Rightarrow> (string \<rightharpoonup> 'f contents)"
where
  "rename src dst fs = (case fs src of None \<Rightarrow> fs | Some doc \<Rightarrow> (fs(src := None))(dst \<mapsto> doc))"

text \<open>
  Lines 201 to 206. \<open>temp_name\<close> is the name \<^verbatim>\<open>NamedTemporaryFile\<close> chooses.
  \<^verbatim>\<open>NamedTemporaryFile(delete=False)\<close> creates the file and opens it in its default
  mode, \<^verbatim>\<open>w+b\<close>: a binary stream, whose \<^verbatim>\<open>write\<close> takes bytes and raises \<^verbatim>\<open>TypeError\<close>
  when it is handed text. The exception leaves the \<^verbatim>\<open>with\<close> block, which closes the
  file, still empty and still there, and \<^verbatim>\<open>r53_cleanup\<close>: the rename is not reached.
  Otherwise the result is \<^verbatim>\<open>temp_file_yaml\<close>. Creating and renaming the file are
  taken to succeed.
\<close>

definition write_snapshot ::
  "'f yaml \<Rightarrow> string \<Rightarrow> r53_record list \<Rightarrow> 'f world \<Rightarrow> 'f world \<times> (error + string)"
where
  "write_snapshot y temp_name to_delete w =
     (let w0 = \<lparr>files = (files w)(temp_name \<mapsto> Empty),
                events = events w @ [Created temp_name]\<rparr>
      in case safe_dump y to_delete of
           Text doc \<Rightarrow> (w0, Inl TypeError)
         | Bytes doc \<Rightarrow>
             (let w1 = \<lparr>files = (files w0)(temp_name \<mapsto> Document doc),
                        events = events w0 @ [Dumped temp_name doc]\<rparr>;
                  temp_file_yaml = temp_name @ ''.yaml'';
                  w2 = \<lparr>files = rename temp_name temp_file_yaml (files w1),
                        events = events w1 @ [Renamed temp_name temp_file_yaml]\<rparr>
              in (w2, Inr temp_file_yaml)))"

definition submit_all :: "request list \<Rightarrow> 'f world \<Rightarrow> 'f world" where
  "submit_all sent w = w\<lparr>events := events w @ map Submitted sent\<rparr>"

text \<open>
  \<^verbatim>\<open>r53_cleanup\<close>. \<^verbatim>\<open>zone['Id']\<close> raises \<^verbatim>\<open>TypeError\<close> when the zone was not found
  (\<^verbatim>\<open>zone\<close> is \<^verbatim>\<open>None\<close>). The result is \<open>None\<close> when the record listing never returns.
  An exception of the snapshot step ends the run before \<^verbatim>\<open>delete_records\<close> is called.
\<close>

definition r53_cleanup ::
  "provider \<Rightarrow> 'f yaml \<Rightarrow> string \<Rightarrow> string list \<Rightarrow> string \<Rightarrow> string \<Rightarrow> bool \<Rightarrow> 'f world
     \<Rightarrow> ('f world \<times> (error + unit)) option"
where
  "r53_cleanup p y temp_name KEEP_LIST zone_name target_alias dryrun w =
     (case get_hosted_zone_by_name p zone_name of
        None \<Rightarrow> Some (w, Inl TypeError)
      | Some zone \<Rightarrow>
          (case get_all_records_in_zone p (zone_Id zone) of
             None \<Rightarrow> None
           | Some record_set \<Rightarrow>
               (let to_delete = candidates zone KEEP_LIST target_alias record_set
                in case write_snapshot y temp_name to_delete w of
                     (w', Inl e) \<Rightarrow> Some (w', Inl e)
                   | (w', Inr temp_file_yaml) \<Rightarrow>
                       if \<not> dryrun then
                         (let (sent, outcome) =
                                delete_records (change_resource_record_sets p) to_delete
                          in Some (submit_all sent w', outcome))
                       else Some (w', Inr ()))))"

text \<open>
  Lines 76 to 82 of \<^verbatim>\<open>restore_deleted_records\<close>: \<^verbatim>\<open>exit(1)\<close> when the path does not
  exist, otherwise the records loaded from the file. The library loads an empty file
  as \<^verbatim>\<open>None\<close>; on it, as on other contents that are not a record list, \<^verbatim>\<open>len\<close> or a
  subscript raises before anything is sent.
\<close>

definition read_records :: "'f yaml \<Rightarrow> string \<Rightarrow> 'f world \<Rightarrow> error + r53_record list" where
  "read_records y file_path w =
     (case files w file_path of
        None \<Rightarrow> Inl SystemExit
      | Some Empty \<Rightarrow> Inl TypeError
      | Some (Document doc) \<Rightarrow>
          (case load y doc of
             None \<Rightarrow> Inl TypeError
           | Some records \<Rightarrow> Inr records))"

definition restore_deleted_records ::
  "provider \<Rightarrow> 'f yaml \<Rightarrow> string \<Rightarrow> 'f world \<Rightarrow> 'f world \<times> (error + unit)"
where
  "restore_deleted_records p y file_path w =
     (case read_records y file_path w of
        Inl e \<Rightarrow> (w, Inl e)
      | Inr records \<Rightarrow>
          (let (sent, outcome) = restore_records (change_resource_record_sets p) records
           in (submit_all sent w, outcome)))"

section \<open>Chunking as the specification words it\<close>

text \<open>
  The specification describes the change batcher as splitting the list into
  consecutive chunks of at most the chunk size and submitting one batch per chunk, in
  order. \<open>chunks\<close> and \<open>send_chunks\<close> say that directly; they are compared with
  \<open>batch_loop\<close>, which works with indices, below.
\<close>

function chunks :: "nat \<Rightarrow> 'a list \<Rightarrow> 'a list list" where
  "chunks n xs = (if n = 0 \<or> xs = [] then [] else take n xs # chunks n (drop n xs))"
  by pat_completeness auto
termination
  by (relation "measure (\<lambda>(n, xs). length xs)") auto

fun send_chunks ::
  "action \<Rightarrow> string \<Rightarrow> change_api \<Rightarrow> r53_record list list \<Rightarrow> request list
     \<Rightarrow> request list \<times> (error + unit)"
where
  "send_chunks act comment api [] sent = (sent, Inr ())"
| "send_chunks act comment api (chunk # rest) sent =
     (case build_request act comment chunk of
        Inl e \<Rightarrow> (sent, Inl e)
      | Inr req \<Rightarrow>
          if api (length sent) req then send_chunks act comment api rest (sent @ [req])
          else (sent @ [req], Inl SystemExit))"

text \<open>The descriptors a request carries, in order.\<close>

definition descriptors :: "request \<Rightarrow> resource_record_set list" where
  "descriptors req = map ResourceRecordSet (Changes (ChangeBatch req))"

section \<open>Page sequences\<close>

text \<open>
  \<open>fetched p zone_id current_set rest\<close> says that, starting from the page
  \<open>current_set\<close>, the provider reports the pages \<open>rest\<close> one after the other, each
  asked for with the cursor of the page before it, which is marked as truncated.
\<close>

fun fetched :: "provider \<Rightarrow> string \<Rightarrow> page \<Rightarrow> page list \<Rightarrow> bool" where
  "fetched p zone_id current_set [] = True"
| "fetched p zone_id current_set (next_set # rest) =
     (IsTruncated current_set
      \<and> list_resource_record_sets p zone_id (Some (NextRecordName current_set)) = Reply next_set
      \<and> fetched p zone_id next_set rest)"

section \<open>Example data\<close>

definition zone_ex :: hosted_zone where
  "zone_ex = \<lparr>zone_Id = ''Z1'', zone_Name = ''example.com.''\<rparr>"

definition lb_alias :: alias_target where
  "lb_alias =
     \<lparr>HostedZoneId = ''ZELB'', EvaluateTargetHealth = False, DNSName = ''old-lb.example.net.''\<rparr>"

definition rec_old :: r53_record where
  "rec_old =
     \<lparr>Name = ''old.example.com.'', Type = ''A'', AliasTarget = Some lb_alias, Other = []\<rparr>"

definition rec_keep :: r53_record where
  "rec_keep =
     \<lparr>Name = ''www.example.com.'', Type = ''A'', AliasTarget = Some lb_alias, Other = []\<rparr>"

definition rec_txt :: r53_record where
  "rec_txt =
     \<lparr>Name = ''txt.example.com.'', Type = ''TXT'', AliasTarget = None,
      Other = [(''TTL'', ''300'')]\<rparr>"

definition rec_plain :: r53_record where
  "rec_plain =
     \<lparr>Name = ''ip.example.com.'', Type = ''A'', AliasTarget = None,
      Other = [(''TTL'', ''300''), (''ResourceRecords'', ''192.0.2.1'')]\<rparr>"

text \<open>A provider that accepts every change request, and one that rejects every one.\<close>

definition accept_all :: change_api where
  "accept_all = (\<lambda>i req. True)"

definition reject_all :: change_api where
  "reject_all = (\<lambda>i req. False)"

text \<open>
  A provider whose zone \<open>example.com.\<close> is listed in two pages; the fetch of the
  second page succeeds or raises \<^verbatim>\<open>ClientError\<close>.
\<close>

definition two_pages :: "bool \<Rightarrow> provider" where
  "two_pages second_ok =
     \<lparr>list_hosted_zones = Reply [zone_ex],
      get_hosted_zone = (\<lambda>zone_id. Reply zone_ex),
      list_resource_record_sets =
        (\<lambda>zone_id start.
           case start of
             None \<Rightarrow>
               Reply \<lparr>ResourceRecordSets = [rec_keep, rec_old], IsTruncated = True,
                      NextRecordName = ''ip.example.com.''\<rparr>
           | Some start_name \<Rightarrow>
               if second_ok
               then Reply \<lparr>ResourceRecordSets = [rec_plain], IsTruncated = False,
                           NextRecordName = []\<rparr>
               else ClientErrorRaised),
      change_resource_record_sets = accept_all\<rparr>"

text \<open>
  Two YAML libraries whose documents are the record lists themselves: one hands the
  stream encoded bytes, as under Python 2, the other text, as under Python 3.
\<close>

definition yaml_py2 :: "(r53_record list) yaml" where
  "yaml_py2 = \<lparr>safe_dump = (\<lambda>records. Bytes records), load = (\<lambda>doc. Some doc)\<rparr>"

definition yaml_py3 :: "(r53_record list) yaml" where
  "yaml_py3 = \<lparr>safe_dump = (\<lambda>records. Text records), load = (\<lambda>doc. Some doc)\<rparr>"

definition empty_world :: "(r53_record list) world" where
  "empty_world = \<lparr>files = Map.empty, events = []\<rparr>"

section \<open>Properties of chunking\<close>

declare chunks.simps [simp del]

lemma chunks_Nil: "chunks n [] = []"
  by (simp add: chunks.simps)

lemma chunks_step: "0 < n \<Longrightarrow> xs \<noteq> [] \<Longrightarrow> chunks n xs = take n xs # chunks n (drop n xs)"
  by (subst chunks.simps) simp

lemma concat_chunks: "0 < n \<Longrightarrow> concat (chunks n xs) = xs"
proof (induction n xs rule: chunks.induct)
  case (1 n xs)
  show ?case
  proof (cases "xs = []")
    case True
    then show ?thesis by (simp add: chunks_Nil)
  next
    case False
    with 1 show ?thesis by (simp add: chunks_step)
  qed
qed

lemma ceil_div_step: "0 < n \<Longrightarrow> n \<le> m \<Longrightarrow> (m + (n - 1)) div n = Suc ((m - n + (n - 1)) div n)"
  for n m :: nat
proof -
  assume n: "0 < n" and le: "n \<le> m"
  have "m + (n - 1) = (m - n + (n - 1)) + n" using le by arith
  then have "(m + (n - 1)) div n = ((m - n + (n - 1)) + n) div n" by (rule arg_cong)
  also have "\<dots> = (m - n + (n - 1)) div n + 1" by (rule div_add_self2) (use n in simp)
  also have "\<dots> = Suc ((m - n + (n - 1)) div n)" by (rule Suc_eq_plus1 [symmetric])
  finally show ?thesis .
qed

lemma ceil_div_last: "0 < m \<Longrightarrow> m < n \<Longrightarrow> (m + (n - 1)) div n = 1" for n m :: nat
proof -
  assume m: "0 < m" and lt: "m < n"
  have "n * 1 \<le> m + (n - 1)" using m lt by arith
  moreover have "m + (n - 1) < n * Suc 1" using m lt by arith
  ultimately show ?thesis by (rule div_nat_eqI)
qed

lemma length_chunks: "0 < n \<Longrightarrow> length (chunks n xs) = (length xs + (n - 1)) div n"
proof (induction n xs rule: chunks.induct)
  case (1 n xs)
  show ?case
  proof (cases "xs = []")
    case True
    with 1(2) show ?thesis by (simp add: chunks_Nil)
  next
    case False
    note ne = this
    with 1 have IH: "length (chunks n (drop n xs)) = (length (drop n xs) + (n - 1)) div n"
      by blast
    have step: "length (chunks n xs) = Suc (length (chunks n (drop n xs)))"
      using 1(2) ne by (simp add: chunks_step)
    show ?thesis
    proof (cases "n \<le> length xs")
      case True
      from ceil_div_step [OF 1(2) True] IH step show ?thesis by simp
    next
      case False
      then have "drop n xs = []" by simp
      moreover from ne False have "(length xs + (n - 1)) div n = 1"
        by (intro ceil_div_last) simp_all
      ultimately show ?thesis using step by (simp add: chunks_Nil)
    qed
  qed
qed

lemma chunks_bounds: "c \<in> set (chunks n xs) \<Longrightarrow> c \<noteq> [] \<and> length c \<le> n"
proof (induction n xs rule: chunks.induct)
  case (1 n xs)
  show ?case
  proof (cases "n = 0 \<or> xs = []")
    case True
    with 1(2) show ?thesis by (subst (asm) chunks.simps) simp
  next
    case False
    then have "chunks n xs = take n xs # chunks n (drop n xs)" by (simp add: chunks_step)
    with 1(2) have "c = take n xs \<or> c \<in> set (chunks n (drop n xs))" by simp
    then show ?thesis
    proof
      assume "c = take n xs"
      with False show ?thesis by simp
    next
      assume "c \<in> set (chunks n (drop n xs))"
      with 1(1) False show ?thesis by blast
    qed
  qed
qed

lemma chunks_nth:
  "i < length (chunks n xs) \<Longrightarrow> chunks n xs ! i = take n (drop (i * n) xs)"
proof (induction n xs arbitrary: i rule: chunks.induct)
  case (1 n xs)
  show ?case
  proof (cases "n = 0 \<or> xs = []")
    case True
    then have "chunks n xs = []" by (subst chunks.simps) simp
    with 1(2) show ?thesis by simp
  next
    case False
    then have step: "chunks n xs = take n xs # chunks n (drop n xs)" by (simp add: chunks_step)
    show ?thesis
    proof (cases i)
      case 0
      then show ?thesis by (simp add: step)
    next
      case (Suc j)
      with 1(2) step have "j < length (chunks n (drop n xs))" by simp
      with 1(1) False have "chunks n (drop n xs) ! j = take n (drop (j * n) (drop n xs))" by blast
      with Suc show ?thesis by (simp add: step add.commute)
    qed
  qed
qed

section \<open>Properties of the record filter and the keep list\<close>

lemma filter_loop_append:
  "filter_loop zone KEEP_LIST target_alias record_set to_delete =
     to_delete @ filter (\<lambda>record. examine zone KEEP_LIST target_alias record = ToBeDeleted) record_set"
  by (induction record_set arbitrary: to_delete) simp_all

lemma examine_cascade:
  "examine zone KEEP_LIST target_alias record =
     (if Type record \<noteq> ''A'' then SkipRecordType
      else if Name record = zone_Name zone then SkipIsZone
      else if Name record \<in> set KEEP_LIST then SkipInKeepList
      else case AliasTarget record of
             None \<Rightarrow> SkipNoAliasTarget
           | Some alias \<Rightarrow>
               if DNSName alias = target_alias then ToBeDeleted else SkipAliasMismatch)"
  by (simp add: examine_def Let_def split: option.split)

lemma examine_ToBeDeleted:
  "examine zone KEEP_LIST target_alias record = ToBeDeleted \<longleftrightarrow>
     Type record = ''A'' \<and> Name record \<noteq> zone_Name zone \<and> Name record \<notin> set KEEP_LIST \<and>
     (\<exists>alias. AliasTarget record = Some alias \<and> DNSName alias = target_alias)"
  by (simp add: examine_def Let_def split: option.split)

lemma candidates_filter:
  "candidates zone KEEP_LIST target_alias record_set =
     filter (\<lambda>R. Type R = ''A'' \<and> Name R \<noteq> zone_Name zone \<and> Name R \<notin> set KEEP_LIST \<and>
                 (\<exists>alias. AliasTarget R = Some alias \<and>
                          DNSName alias = with_trailing_dot target_alias)) record_set"
  by (simp add: candidates_def filter_loop_append examine_ToBeDeleted)

lemma candidates_have_alias:
  "R \<in> set (candidates zone KEEP_LIST target_alias record_set) \<Longrightarrow> AliasTarget R \<noteq> None"
  by (auto simp: candidates_filter)

lemma expand_keep_list_twice:
  "expand_keep_list zone_name (expand_keep_list zone_name KEEP_LIST) =
     map (\<lambda>x. x @ ''.'' @ with_trailing_dot zone_name @ ''.'' @ with_trailing_dot zone_name) KEEP_LIST"
  by (simp add: expand_keep_list_def Let_def)

section \<open>Properties of the change batcher\<close>

declare batch_loop.simps [simp del]

lemma describe_Inr_iff: "(\<exists>d. describe r = Inr d) \<longleftrightarrow> AliasTarget r \<noteq> None"
  by (auto simp: describe_def split: option.splits)

lemma describe_Inl: "describe r = Inl e \<Longrightarrow> e = KeyError \<and> AliasTarget r = None"
  by (auto simp: describe_def split: option.splits)

lemma build_change_set_Inr:
  "build_change_set act rs acc = Inr cs \<Longrightarrow>
     \<exists>new. cs = acc @ new \<and> length new = length rs
          \<and> map (\<lambda>c. Inr (ResourceRecordSet c)) new = map describe rs
          \<and> (\<forall>c \<in> set new. Action c = act)"
proof (induction rs arbitrary: acc)
  case Nil
  then show ?case by simp
next
  case (Cons r rs)
  from Cons.prems obtain d where d: "describe r = Inr d"
    and rest: "build_change_set act rs (acc @ [\<lparr>Action = act, ResourceRecordSet = d\<rparr>]) = Inr cs"
    by (auto split: sum.splits)
  from Cons.IH [OF rest] obtain new where new:
    "cs = (acc @ [\<lparr>Action = act, ResourceRecordSet = d\<rparr>]) @ new" "length new = length rs"
    "map (\<lambda>c. Inr (ResourceRecordSet c)) new = map describe rs" "\<forall>c \<in> set new. Action c = act"
    by blast
  let ?new = "\<lparr>Action = act, ResourceRecordSet = d\<rparr> # new"
  have "cs = acc @ ?new" using new(1) by simp
  moreover have "length ?new = length (r # rs)" using new(2) by simp
  moreover have "map (\<lambda>c. Inr (ResourceRecordSet c)) ?new = map describe (r # rs)"
    using new(3) d by simp
  moreover have "\<forall>c \<in> set ?new. Action c = act" using new(4) by simp
  ultimately show ?case by blast
qed

lemma build_change_set_Inl:
  "build_change_set act rs acc = Inl e \<Longrightarrow> e = KeyError \<and> (\<exists>r \<in> set rs. AliasTarget r = None)"
proof (induction rs arbitrary: acc)
  case Nil
  then show ?case by simp
next
  case (Cons r rs)
  show ?case
  proof (cases "describe r")
    case (Inl e')
    with Cons.prems have "e = e'" by simp
    with describe_Inl [OF Inl] show ?thesis by simp
  next
    case (Inr d)
    with Cons.prems have "build_change_set act rs (acc @ [\<lparr>Action = act, ResourceRecordSet = d\<rparr>]) = Inl e"
      by simp
    from Cons.IH [OF this] show ?thesis by simp
  qed
qed

lemma build_request_Inr:
  assumes "build_request act comment chunk = Inr req"
  shows "chunk \<noteq> []"
    and "length (Changes (ChangeBatch req)) = length chunk"
    and "map Inr (descriptors req) = map describe chunk"
    and "\<forall>c \<in> set (Changes (ChangeBatch req)). Action c = act"
    and "Comment (ChangeBatch req) = comment"
    and "\<exists>alias. AliasTarget (hd chunk) = Some alias \<and> req_HostedZoneId req = HostedZoneId alias"
proof -
  from assms obtain zone_id change_set where z: "first_zone_id chunk = Inr zone_id"
    and cs: "build_change_set act chunk [] = Inr change_set"
    and req: "req = \<lparr>req_HostedZoneId = zone_id,
                     ChangeBatch = \<lparr>Comment = comment, Changes = change_set\<rparr>\<rparr>"
    by (auto simp: build_request_def split: sum.splits)
  from z show "chunk \<noteq> []" by (auto simp: first_zone_id_def)
  from build_change_set_Inr [OF cs] have props: "length change_set = length chunk"
    "map (\<lambda>c. Inr (ResourceRecordSet c)) change_set = map describe chunk"
    "\<forall>c \<in> set change_set. Action c = act"
    by auto
  from props(1) req show "length (Changes (ChangeBatch req)) = length chunk" by simp
  from props(2) req show "map Inr (descriptors req) = map describe chunk"
    by (simp add: descriptors_def comp_def)
  from props(3) req show "\<forall>c \<in> set (Changes (ChangeBatch req)). Action c = act" by simp
  from req show "Comment (ChangeBatch req) = comment" by simp
  from z req show "\<exists>alias. AliasTarget (hd chunk) = Some alias \<and> req_HostedZoneId req = HostedZoneId alias"
    by (auto simp: first_zone_id_def split: list.splits option.splits)
qed

lemma build_request_Inl:
  assumes "build_request act comment chunk = Inl e"
  shows "(e = IndexError \<and> chunk = []) \<or> (e = KeyError \<and> (\<exists>r \<in> set chunk. AliasTarget r = None))"
proof (cases "first_zone_id chunk")
  case (Inl e')
  with assms have "e = e'" by (simp add: build_request_def)
  with Inl show ?thesis
    by (auto simp: first_zone_id_def split: list.splits option.splits)
next
  case (Inr zone_id)
  with assms have "build_change_set act chunk [] = Inl e"
    by (auto simp: build_request_def split: sum.splits)
  from build_change_set_Inl [OF this] show ?thesis by simp
qed

lemma build_request_first:
  "build_request act comment chunk = Inr req \<Longrightarrow>
     req_HostedZoneId req = HostedZoneId (rrs_AliasTarget (ResourceRecordSet (hd (Changes (ChangeBatch req)))))"
proof -
  assume a: "build_request act comment chunk = Inr req"
  from build_request_Inr(1) [OF a] obtain r rs where chunk: "chunk = r # rs" by (cases chunk) auto
  from build_request_Inr(6) [OF a] chunk obtain tgt where al: "AliasTarget r = Some tgt"
    "req_HostedZoneId req = HostedZoneId tgt" by auto
  from build_request_Inr(3) [OF a] chunk obtain d ds where ds: "descriptors req = d # ds"
    "Inr d = describe r" by (cases "descriptors req") auto
  from ds(2) al(1) have "HostedZoneId (rrs_AliasTarget d) = HostedZoneId tgt"
    by (auto simp: describe_def)
  moreover from ds(1) have "d = ResourceRecordSet (hd (Changes (ChangeBatch req)))"
    by (cases "Changes (ChangeBatch req)") (auto simp: descriptors_def)
  ultimately show ?thesis using al(2) by simp
qed

lemma slice_is_chunk:
  assumes "s < length rs"
  shows "slice rs s (end_of (length rs) s) = take batch_size (drop s rs)"
    and "drop (end_of (length rs) s) rs = drop batch_size (drop s rs)"
    and "s < end_of (length rs) s"
    and "end_of (length rs) s \<le> length rs"
  using assms by (auto simp: slice_def end_of_def Let_def batch_size_def add.commute)

lemma slice_nonempty:
  "s < length rs \<Longrightarrow> slice rs s (end_of (length rs) s) \<noteq> []"
  by (simp add: slice_is_chunk(1) batch_size_def)

lemma batch_loop_send_chunks:
  "s \<le> length rs \<Longrightarrow>
     batch_loop act comment api rs s s sent =
       send_chunks act comment api (chunks batch_size (drop s rs)) sent"
proof (induction "length rs - s" arbitrary: s sent rule: less_induct)
  case less
  show ?case
  proof (cases "s < length rs")
    case False
    with less.prems have "drop s rs = []" by simp
    with False show ?thesis
      by (subst batch_loop.simps) (simp add: chunks_Nil)
  next
    case True
    let ?e = "end_of (length rs) s"
    note sl = slice_is_chunk [OF True]
    have ne: "drop s rs \<noteq> []" using True by simp
    have step: "chunks batch_size (drop s rs) =
        take batch_size (drop s rs) # chunks batch_size (drop ?e rs)"
      using chunks_step [OF _ ne, of batch_size] sl(2) by (simp add: batch_size_def)
    have IH: "batch_loop act comment api rs ?e ?e sent' =
       send_chunks act comment api (chunks batch_size (drop ?e rs)) sent'" for sent'
      using less.hyps [of ?e sent'] sl(3,4) True by simp
    have proc: "s + (?e - s) = ?e" using sl(3) by simp
    show ?thesis
      by (subst batch_loop.simps) (simp add: True sl(1) step IH proc split: sum.split)
  qed
qed

lemma delete_records_chunks:
  "delete_records api record_list =
     send_chunks DELETE ''Deleting resource records'' api (chunks batch_size record_list) []"
  using batch_loop_send_chunks [of 0 record_list] by (simp add: delete_records_def)

lemma restore_records_chunks:
  "restore_records api records =
     send_chunks UPSERT ''Restoring resource records'' api (chunks batch_size records) []"
  using batch_loop_send_chunks [of 0 records] by (simp add: restore_records_def)

lemma send_chunks_sent:
  "send_chunks act comment api chs sent = (sent', out) \<Longrightarrow>
     \<exists>reqs. sent' = sent @ reqs \<and> length reqs \<le> length chs
        \<and> (\<forall>i < length reqs. build_request act comment (chs ! i) = Inr (reqs ! i))
        \<and> (out = Inr () \<longrightarrow> length reqs = length chs)
        \<and> (\<forall>e. out = Inl e \<longrightarrow> e = SystemExit \<or>
               (\<exists>ch \<in> set chs. build_request act comment ch = Inl e))"
proof (induction chs arbitrary: sent)
  case Nil
  then show ?case by auto
next
  case (Cons ch chs)
  show ?case
  proof (cases "build_request act comment ch")
    case (Inl e)
    with Cons.prems have "sent' = sent" "out = Inl e" by simp_all
    with Inl show ?thesis by simp
  next
    case (Inr req)
    show ?thesis
    proof (cases "api (length sent) req")
      case False
      with Inr Cons.prems have "sent' = sent @ [req]" "out = Inl SystemExit" by simp_all
      with Inr show ?thesis by simp
    next
      case True
      with Inr Cons.prems have "send_chunks act comment api chs (sent @ [req]) = (sent', out)"
        by simp
      from Cons.IH [OF this] obtain reqs where reqs: "sent' = (sent @ [req]) @ reqs"
        "length reqs \<le> length chs"
        "\<forall>i < length reqs. build_request act comment (chs ! i) = Inr (reqs ! i)"
        "out = Inr () \<longrightarrow> length reqs = length chs"
        "\<forall>e. out = Inl e \<longrightarrow> e = SystemExit \<or> (\<exists>ch \<in> set chs. build_request act comment ch = Inl e)"
        by blast
      let ?reqs = "req # reqs"
      have "sent' = sent @ ?reqs" using reqs(1) by simp
      moreover have "length ?reqs \<le> length (ch # chs)" using reqs(2) by simp
      moreover have "\<forall>i < length ?reqs. build_request act comment ((ch # chs) ! i) = Inr (?reqs ! i)"
      proof (intro allI impI)
        fix i assume "i < length ?reqs"
        then show "build_request act comment ((ch # chs) ! i) = Inr (?reqs ! i)"
          using reqs(3) Inr by (cases i) simp_all
      qed
      moreover have "out = Inr () \<longrightarrow> length ?reqs = length (ch # chs)" using reqs(4) by simp
      moreover have "\<forall>e. out = Inl e \<longrightarrow> e = SystemExit \<or>
               (\<exists>c \<in> set (ch # chs). build_request act comment c = Inl e)"
        using reqs(5) by auto
      ultimately show ?thesis by blast
    qed
  qed
qed

lemma send_chunks_all:
  "\<forall>ch \<in> set chs. \<exists>req. build_request act comment ch = Inr req \<Longrightarrow> \<forall>i q. api i q \<Longrightarrow>
     snd (send_chunks act comment api chs sent) = Inr ()"
proof (induction chs arbitrary: sent)
  case Nil
  then show ?case by simp
next
  case (Cons ch chs)
  from Cons.prems(1) obtain req where req: "build_request act comment ch = Inr req" by auto
  from Cons.prems have "snd (send_chunks act comment api chs (sent @ [req])) = Inr ()"
    by (intro Cons.IH) simp_all
  moreover from Cons.prems(2) have "api (length sent) req" by blast
  ultimately show ?case using req by (simp only: send_chunks.simps sum.case if_True)
qed

lemma build_request_total:
  "chunk \<noteq> [] \<Longrightarrow> \<forall>r \<in> set chunk. AliasTarget r \<noteq> None \<Longrightarrow>
     \<exists>req. build_request act comment chunk = Inr req"
proof (cases "build_request act comment chunk")
  case (Inr req)
  then show ?thesis by blast
next
  case (Inl e)
  assume "chunk \<noteq> []" "\<forall>r \<in> set chunk. AliasTarget r \<noteq> None"
  with build_request_Inl [OF Inl] show ?thesis by blast
qed

lemma concat_take_chunks:
  "0 < n \<Longrightarrow> concat (take k (chunks n xs)) = take (k * n) xs"
proof (induction n xs arbitrary: k rule: chunks.induct)
  case (1 n xs)
  show ?case
  proof (cases "xs = []")
    case True
    then show ?thesis by (simp add: chunks_Nil)
  next
    case False
    show ?thesis
    proof (cases k)
      case 0
      then show ?thesis by simp
    next
      case (Suc j)
      from 1(1) [of j] 1(2) False
      have "concat (take j (chunks n (drop n xs))) = take (j * n) (drop n xs)" by simp
      with Suc 1(2) False show ?thesis
        by (simp add: chunks_step take_add)
    qed
  qed
qed

lemma set_chunks: "0 < n \<Longrightarrow> ch \<in> set (chunks n xs) \<Longrightarrow> set ch \<subseteq> set xs"
proof -
  assume n: "0 < n" and ch: "ch \<in> set (chunks n xs)"
  then have "set ch \<subseteq> set (concat (chunks n xs))" by auto
  with n show ?thesis by (simp add: concat_chunks)
qed

lemma batch_loop_run:
  assumes run: "batch_loop act comment api records 0 0 [] = (sent, out)"
  shows "length sent \<le> (length records + 99) div 100"
    and "\<forall>i < length sent.
           build_request act comment (take 100 (drop (i * 100) records)) = Inr (sent ! i)"
    and "out = Inr () \<longrightarrow> length sent = (length records + 99) div 100"
    and "\<forall>e. out = Inl e \<longrightarrow>
           e = SystemExit \<or> (e = KeyError \<and> (\<exists>r \<in> set records. AliasTarget r = None))"
proof -
  let ?chs = "chunks batch_size records"
  have pos: "0 < batch_size" by (simp add: batch_size_def)
  from run batch_loop_send_chunks [of 0 records act comment api "[]"]
  have "send_chunks act comment api ?chs [] = (sent, out)" by simp
  from send_chunks_sent [OF this]
  have len: "length sent \<le> length ?chs"
    and built: "\<forall>i < length sent. build_request act comment (?chs ! i) = Inr (sent ! i)"
    and finished: "out = Inr () \<longrightarrow> length sent = length ?chs"
    and aborted: "\<forall>e. out = Inl e \<longrightarrow> e = SystemExit \<or>
               (\<exists>ch \<in> set ?chs. build_request act comment ch = Inl e)"
    by auto
  have count: "length ?chs = (length records + 99) div 100"
    using length_chunks [OF pos, of records] by (simp add: batch_size_def)
  from len count show "length sent \<le> (length records + 99) div 100" by simp
  from finished count show "out = Inr () \<longrightarrow> length sent = (length records + 99) div 100" by simp
  show "\<forall>i < length sent.
           build_request act comment (take 100 (drop (i * 100) records)) = Inr (sent ! i)"
  proof (intro allI impI)
    fix i assume i: "i < length sent"
    with len have "i < length ?chs" by simp
    from chunks_nth [OF this] have "?chs ! i = take 100 (drop (i * 100) records)"
      by (simp add: batch_size_def)
    moreover from built i have "build_request act comment (?chs ! i) = Inr (sent ! i)" by blast
    ultimately show "build_request act comment (take 100 (drop (i * 100) records)) = Inr (sent ! i)"
      by (simp only:)
  qed
  show "\<forall>e. out = Inl e \<longrightarrow>
           e = SystemExit \<or> (e = KeyError \<and> (\<exists>r \<in> set records. AliasTarget r = None))"
  proof (intro allI impI)
    fix e assume "out = Inl e"
    with aborted have "e = SystemExit \<or> (\<exists>ch \<in> set ?chs. build_request act comment ch = Inl e)"
      by blast
    then show "e = SystemExit \<or> (e = KeyError \<and> (\<exists>r \<in> set records. AliasTarget r = None))"
    proof
      assume "e = SystemExit"
      then show ?thesis by simp
    next
      assume "\<exists>ch \<in> set ?chs. build_request act comment ch = Inl e"
      then obtain ch where ch: "ch \<in> set ?chs" "build_request act comment ch = Inl e" by blast
      from chunks_bounds [OF ch(1)] have "ch \<noteq> []" by simp
      with build_request_Inl [OF ch(2)]
      obtain r where "e = KeyError" "r \<in> set ch" "AliasTarget r = None" by blast
      moreover from set_chunks [OF pos ch(1)] have "set ch \<subseteq> set records" .
      ultimately show ?thesis by blast
    qed
  qed
qed

lemma batch_loop_complete:
  assumes targets: "\<forall>r \<in> set records. AliasTarget r \<noteq> None" and accept: "\<forall>i q. api i q"
  shows "snd (batch_loop act comment api records 0 0 []) = Inr ()"
proof -
  let ?chs = "chunks batch_size records"
  have pos: "0 < batch_size" by (simp add: batch_size_def)
  have "\<forall>ch \<in> set ?chs. \<exists>req. build_request act comment ch = Inr req"
  proof
    fix ch assume ch: "ch \<in> set ?chs"
    from chunks_bounds [OF ch] have "ch \<noteq> []" by simp
    moreover from set_chunks [OF pos ch] targets have "\<forall>r \<in> set ch. AliasTarget r \<noteq> None" by blast
    ultimately show "\<exists>req. build_request act comment ch = Inr req" by (rule build_request_total)
  qed
  from send_chunks_all [OF this accept]
  have "snd (send_chunks act comment api ?chs []) = Inr ()" .
  with batch_loop_send_chunks [of 0 records act comment api "[]"] show ?thesis by simp
qed

lemma batch_loop_batches:
  assumes run: "batch_loop act comment api records 0 0 [] = (sent, out)"
  shows "\<forall>i < length sent.
           length (Changes (ChangeBatch (sent ! i))) = min 100 (length records - i * 100)"
    and "\<forall>q \<in> set sent. 1 \<le> length (Changes (ChangeBatch q)) \<and> length (Changes (ChangeBatch q)) \<le> 100"
    and "map Inr (concat (map descriptors sent)) = map describe (take (length sent * 100) records)"
    and "\<forall>q \<in> set sent. Comment (ChangeBatch q) = comment \<and>
           (\<forall>c \<in> set (Changes (ChangeBatch q)). Action c = act)"
proof -
  note built = batch_loop_run(2) [OF run]
  have at: "build_request act comment (take 100 (drop (i * 100) records)) = Inr (sent ! i)"
    if "i < length sent" for i using built that by blast
  show sizes: "\<forall>i < length sent.
           length (Changes (ChangeBatch (sent ! i))) = min 100 (length records - i * 100)"
  proof (intro allI impI)
    fix i assume "i < length sent"
    from build_request_Inr(2) [OF at [OF this]]
    show "length (Changes (ChangeBatch (sent ! i))) = min 100 (length records - i * 100)"
      by (simp add: min.commute)
  qed
  show "\<forall>q \<in> set sent. 1 \<le> length (Changes (ChangeBatch q)) \<and> length (Changes (ChangeBatch q)) \<le> 100"
  proof
    fix q assume "q \<in> set sent"
    then obtain i where i: "i < length sent" "q = sent ! i" by (auto simp: in_set_conv_nth)
    have "length (take 100 (drop (i * 100) records)) \<le> 100" by simp
    moreover from build_request_Inr(1) [OF at [OF i(1)]]
    have "1 \<le> length (take 100 (drop (i * 100) records))"
      by (cases "take 100 (drop (i * 100) records)") simp_all
    ultimately show "1 \<le> length (Changes (ChangeBatch q)) \<and> length (Changes (ChangeBatch q)) \<le> 100"
      using build_request_Inr(2) [OF at [OF i(1)]] i(2) by (simp only:)
  qed
  show "\<forall>q \<in> set sent. Comment (ChangeBatch q) = comment \<and>
           (\<forall>c \<in> set (Changes (ChangeBatch q)). Action c = act)"
  proof
    fix q assume "q \<in> set sent"
    then obtain i where i: "i < length sent" "q = sent ! i" by (auto simp: in_set_conv_nth)
    from build_request_Inr(4,5) [OF at [OF i(1)]] i(2)
    show "Comment (ChangeBatch q) = comment \<and> (\<forall>c \<in> set (Changes (ChangeBatch q)). Action c = act)"
      by simp
  qed
  let ?chs = "chunks batch_size records"
  have pos: "0 < batch_size" by (simp add: batch_size_def)
  have len: "length sent \<le> length ?chs"
    using batch_loop_run(1) [OF run] length_chunks [OF pos, of records]
    by (simp add: batch_size_def)
  have "map (\<lambda>q. map Inr (descriptors q)) sent = map (map describe) (take (length sent) ?chs)"
  proof (rule nth_equalityI)
    show "length (map (\<lambda>q. map Inr (descriptors q)) sent)
            = length (map (map describe) (take (length sent) ?chs))"
      using len by simp
  next
    fix i assume "i < length (map (\<lambda>q. map Inr (descriptors q)) sent)"
    then have i: "i < length sent" by simp
    with len have "i < length ?chs" by simp
    from chunks_nth [OF this] have "?chs ! i = take 100 (drop (i * 100) records)"
      by (simp add: batch_size_def)
    with build_request_Inr(3) [OF at [OF i]] i len
    show "map (\<lambda>q. map Inr (descriptors q)) sent ! i
            = map (map describe) (take (length sent) ?chs) ! i"
      by simp
  qed
  then have mid: "concat (map (\<lambda>q. map Inr (descriptors q)) sent)
               = concat (map (map describe) (take (length sent) ?chs))"
    by (rule arg_cong)
  have "map Inr (concat (map descriptors sent))
          = concat (map (\<lambda>q. map Inr (descriptors q)) sent)"
    by (simp add: map_concat comp_def)
  also note mid
  also have "concat (map (map describe) (take (length sent) ?chs))
               = map describe (concat (take (length sent) ?chs))"
    by (simp add: map_concat)
  also have "concat (take (length sent) ?chs) = take (length sent * 100) records"
    using concat_take_chunks [OF pos, of "length sent" records] by (simp add: batch_size_def)
  finally show "map Inr (concat (map descriptors sent))
                     = map describe (take (length sent * 100) records)" .
qed

lemma runs_cases:
  assumes "run \<in> {delete_records api records, restore_records api records}"
  obtains act comment where "batch_loop act comment api records 0 0 [] = (fst run, snd run)"
  using assms by (auto simp: delete_records_def restore_records_def)

lemma batch_loop_all_sent:
  assumes "\<forall>r \<in> set records. AliasTarget r \<noteq> None" and "\<forall>i q. api i q"
  shows "snd (batch_loop act comment api records 0 0 []) = Inr ()"
    and "length (fst (batch_loop act comment api records 0 0 [])) = (length records + 99) div 100"
proof -
  show ok: "snd (batch_loop act comment api records 0 0 []) = Inr ()"
    using assms by (rule batch_loop_complete)
  obtain sent out where run: "batch_loop act comment api records 0 0 [] = (sent, out)"
    by (cases "batch_loop act comment api records 0 0 []")
  with ok have "out = Inr ()" by simp
  with batch_loop_run(3) [OF run] run
  show "length (fst (batch_loop act comment api records 0 0 [])) = (length records + 99) div 100"
    by simp
qed

lemma batch_loop_rejected:
  assumes "records \<noteq> []" and "\<forall>r \<in> set records. AliasTarget r \<noteq> None" and "\<forall>i q. \<not> api i q"
  shows "\<exists>req. batch_loop act comment api records 0 0 [] = ([req], Inl SystemExit)"
proof -
  have "take batch_size records \<noteq> []" using assms(1) by (simp add: batch_size_def)
  moreover have "\<forall>r \<in> set (take batch_size records). AliasTarget r \<noteq> None"
    using assms(2) by (auto dest: in_set_takeD)
  ultimately obtain req where req: "build_request act comment (take batch_size records) = Inr req"
    using build_request_total by blast
  have "chunks batch_size records = take batch_size records # chunks batch_size (drop batch_size records)"
    using assms(1) by (intro chunks_step) (simp_all add: batch_size_def)
  with req assms(3) batch_loop_send_chunks [of 0 records act comment api "[]"]
  have "batch_loop act comment api records 0 0 [] = ([req], Inl SystemExit)" by simp
  then show ?thesis ..
qed

section \<open>Properties of the record lister and the workflows\<close>

lemma page_loop_fetched:
  assumes "fetched p zone_id current_set rest"
    and "\<not> IsTruncated (last (current_set # rest))
         \<or> list_resource_record_sets p zone_id (Some (NextRecordName (last (current_set # rest))))
             = ClientErrorRaised"
  shows "page_loop p zone_id current_set acc = Some (acc @ concat (map ResourceRecordSets rest))"
  using assms
proof (induction rest arbitrary: current_set acc)
  case Nil
  then show ?case by (subst page_loop.simps) auto
next
  case (Cons next_set rest)
  from Cons.prems(1) have trunc: "IsTruncated current_set"
    and nxt: "list_resource_record_sets p zone_id (Some (NextRecordName current_set)) = Reply next_set"
    and more: "fetched p zone_id next_set rest"
    by simp_all
  from Cons.prems(2) have "\<not> IsTruncated (last (next_set # rest))
         \<or> list_resource_record_sets p zone_id (Some (NextRecordName (last (next_set # rest))))
             = ClientErrorRaised"
    by simp
  from Cons.IH [OF more this]
  have "page_loop p zone_id next_set (acc @ ResourceRecordSets next_set)
          = Some ((acc @ ResourceRecordSets next_set) @ concat (map ResourceRecordSets rest))" .
  with trunc nxt show ?case by (subst page_loop.simps) simp
qed

lemma write_snapshot_Text:
  assumes "safe_dump y to_delete = Text doc"
  shows "write_snapshot y temp_name to_delete w =
     (\<lparr>files = (files w)(temp_name \<mapsto> Empty), events = events w @ [Created temp_name]\<rparr>,
      Inl TypeError)"
  using assms by (simp add: write_snapshot_def Let_def)

lemma write_snapshot_Bytes:
  assumes "safe_dump y to_delete = Bytes doc"
  shows "write_snapshot y temp_name to_delete w =
     (\<lparr>files = ((files w)(temp_name := None))(temp_name @ ''.yaml'' \<mapsto> Document doc),
       events = events w @ [Created temp_name, Dumped temp_name doc,
                            Renamed temp_name (temp_name @ ''.yaml'')]\<rparr>,
      Inr (temp_name @ ''.yaml''))"
  using assms by (simp add: write_snapshot_def Let_def rename_def)

lemma submit_all_Nil: "submit_all [] w = w"
  by (simp add: submit_all_def)

lemma r53_cleanup_found:
  assumes "get_hosted_zone_by_name p zone_name = Some zone"
    and "get_all_records_in_zone p (zone_Id zone) = Some record_set"
  shows "r53_cleanup p y temp_name KEEP_LIST zone_name target_alias dryrun w =
     (case write_snapshot y temp_name (candidates zone KEEP_LIST target_alias record_set) w of
        (w', Inl e) \<Rightarrow> Some (w', Inl e)
      | (w', Inr temp_file_yaml) \<Rightarrow>
          Some (submit_all
                  (if dryrun then []
                   else fst (delete_records (change_resource_record_sets p)
                               (candidates zone KEEP_LIST target_alias record_set)))
                  w',
                if dryrun then Inr ()
                else snd (delete_records (change_resource_record_sets p)
                            (candidates zone KEEP_LIST target_alias record_set))))"
  using assms
  by (simp add: r53_cleanup_def Let_def submit_all_Nil split: prod.split sum.split)

lemma r53_cleanup_None:
  "r53_cleanup p y temp_name KEEP_LIST zone_name target_alias dryrun w = None \<longleftrightarrow>
     (\<exists>zone. get_hosted_zone_by_name p zone_name = Some zone
             \<and> get_all_records_in_zone p (zone_Id zone) = None)"
  by (auto simp: r53_cleanup_def Let_def split: option.splits prod.splits sum.splits)

lemma delete_records_actions:
  "q \<in> set (fst (delete_records api records)) \<Longrightarrow> c \<in> set (Changes (ChangeBatch q)) \<Longrightarrow>
     Action c = DELETE"
proof -
  assume q: "q \<in> set (fst (delete_records api records))" and c: "c \<in> set (Changes (ChangeBatch q))"
  have "batch_loop DELETE ''Deleting resource records'' api records 0 0 []
          = (fst (delete_records api records), snd (delete_records api records))"
    by (simp add: delete_records_def)
  from batch_loop_batches(4) [OF this] q c show ?thesis by blast
qed

lemma ex_zone: "get_hosted_zone_by_name (two_pages second_ok) ''example.com'' = Some zone_ex"
  by (simp add: get_hosted_zone_by_name_def get_hosted_zone_list_def two_pages_def zone_ex_def
      with_trailing_dot_def endswith_dot_def)

lemma ex_listing:
  "get_all_records_in_zone (two_pages True) (zone_Id zone_ex) = Some [rec_keep, rec_old, rec_plain]"
  by (simp add: get_all_records_in_zone_def two_pages_def page_loop.simps)

lemma ex_candidates:
  "candidates zone_ex [''www.example.com.''] ''old-lb.example.net'' [rec_keep, rec_old, rec_plain]
     = [rec_old]"
  by (simp add: candidates_filter zone_ex_def rec_old_def rec_keep_def rec_plain_def lb_alias_def
      with_trailing_dot_def endswith_dot_def)

lemma snapshot_not_written:
  assumes "safe_dump y to_delete = Text doc"
  shows "\<exists>w0. write_snapshot y temp_name to_delete w = (w0, Inl TypeError)
          \<and> files w0 = (files w)(temp_name \<mapsto> Empty)
          \<and> read_records y temp_name w0 = Inl TypeError
          \<and> restore_deleted_records p y temp_name w0 = (w0, Inl TypeError)
          \<and> (files w (temp_name @ ''.yaml'') = None \<longrightarrow>
               read_records y (temp_name @ ''.yaml'') w0 = Inl SystemExit
               \<and> restore_deleted_records p y (temp_name @ ''.yaml'') w0 = (w0, Inl SystemExit))"
proof -
  let ?w0 = "\<lparr>files = (files w)(temp_name \<mapsto> Empty), events = events w @ [Created temp_name]\<rparr>"
  have "write_snapshot y temp_name to_delete w = (?w0, Inl TypeError)
          \<and> files ?w0 = (files w)(temp_name \<mapsto> Empty)
          \<and> read_records y temp_name ?w0 = Inl TypeError
          \<and> restore_deleted_records p y temp_name ?w0 = (?w0, Inl TypeError)
          \<and> (files w (temp_name @ ''.yaml'') = None \<longrightarrow>
               read_records y (temp_name @ ''.yaml'') ?w0 = Inl SystemExit
               \<and> restore_deleted_records p y (temp_name @ ''.yaml'') ?w0 = (?w0, Inl SystemExit))"
    by (simp add: write_snapshot_Text [OF assms] restore_deleted_records_def read_records_def)
  then show ?thesis by (rule exI [where x = ?w0])
qed

lemma snapshot_written:
  assumes "safe_dump y to_delete = Bytes doc"
  shows "\<exists>w2. write_snapshot y temp_name to_delete w = (w2, Inr (temp_name @ ''.yaml''))
          \<and> files w2 (temp_name @ ''.yaml'') = Some (Document doc)
          \<and> read_records y (temp_name @ ''.yaml'') w2 =
              (case load y doc of None \<Rightarrow> Inl TypeError | Some records \<Rightarrow> Inr records)
          \<and> restore_deleted_records p y (temp_name @ ''.yaml'') w2 =
              (case load y doc of
                 None \<Rightarrow> (w2, Inl TypeError)
               | Some records \<Rightarrow>
                   (submit_all (fst (restore_records (change_resource_record_sets p) records)) w2,
                    snd (restore_records (change_resource_record_sets p) records)))"
proof -
  let ?w2 = "\<lparr>files = ((files w)(temp_name := None))(temp_name @ ''.yaml'' \<mapsto> Document doc),
               events = events w @ [Created temp_name, Dumped temp_name doc,
                                    Renamed temp_name (temp_name @ ''.yaml'')]\<rparr>"
  have written: "write_snapshot y temp_name to_delete w = (?w2, Inr (temp_name @ ''.yaml''))"
    by (rule write_snapshot_Bytes [OF assms])
  have held: "files ?w2 (temp_name @ ''.yaml'') = Some (Document doc)"
    by simp
  have read: "read_records y (temp_name @ ''.yaml'') ?w2 =
              (case load y doc of None \<Rightarrow> Inl TypeError | Some records \<Rightarrow> Inr records)"
    by (simp add: read_records_def)
  have replayed: "restore_deleted_records p y (temp_name @ ''.yaml'') ?w2 =
              (case load y doc of
                 None \<Rightarrow> (?w2, Inl TypeError)
               | Some records \<Rightarrow>
                   (submit_all (fst (restore_records (change_resource_record_sets p) records)) ?w2,
                    snd (restore_records (change_resource_record_sets p) records)))"
    by (simp add: restore_deleted_records_def read_records_def split: option.split prod.split)
  note conjI [OF written conjI [OF held conjI [OF read replayed]]]
  then show ?thesis by (rule exI [where x = ?w2])
qed

section \<open>The claims\<close>

text \<open>
  C1. A record of the listed record set is appended to the to-delete list if and only
  if its type is \<open>A\<close>, its name is not the zone's name, its name is not in the keep
  list, it has an alias target, and that target's DNS name equals the target alias with
  a trailing dot. The list keeps the records in their order and unchanged. The checks
  are made in that order, the first that fails deciding why the record is skipped.
\<close>

theorem C1_filter:
  "candidates zone KEEP_LIST target_alias record_set =
     filter (\<lambda>R. Type R = ''A'' \<and> Name R \<noteq> zone_Name zone \<and> Name R \<notin> set KEEP_LIST \<and>
                 (\<exists>alias. AliasTarget R = Some alias \<and>
                          DNSName alias = with_trailing_dot target_alias)) record_set
   \<and> examine zone KEEP_LIST (with_trailing_dot target_alias) R =
       (if Type R \<noteq> ''A'' then SkipRecordType
        else if Name R = zone_Name zone then SkipIsZone
        else if Name R \<in> set KEEP_LIST then SkipInKeepList
        else case AliasTarget R of
               None \<Rightarrow> SkipNoAliasTarget
             | Some alias \<Rightarrow>
                 if DNSName alias = with_trailing_dot target_alias then ToBeDeleted
                 else SkipAliasMismatch)"
  by (simp only: candidates_filter examine_cascade [symmetric] simp_thms)

theorem C1_filter_witness:
  "candidates zone_ex [''www.example.com.''] ''old-lb.example.net'' [rec_keep, rec_old, rec_txt]
     = [rec_old]"
  using C1_filter [of zone_ex "[''www.example.com.'']" "''old-lb.example.net''"
      "[rec_keep, rec_old, rec_txt]" rec_old]
  by (simp add: zone_ex_def rec_old_def rec_keep_def rec_txt_def lb_alias_def
      with_trailing_dot_def endswith_dot_def)

text \<open>
  C6, as the code has it. Keep list expansion is not idempotent: every application
  appends a dot and the zone name (with its trailing dot) to every entry, so a second
  application with the same zone name appends them a second time. The twice expanded
  list equals the once expanded list only when the keep list is empty.
\<close>

theorem C6_expand_twice:
  "expand_keep_list zone_name (expand_keep_list zone_name KEEP_LIST) =
     map (\<lambda>x. x @ ''.'' @ with_trailing_dot zone_name @ ''.'' @ with_trailing_dot zone_name)
       KEEP_LIST
   \<and> (expand_keep_list zone_name (expand_keep_list zone_name KEEP_LIST)
        = expand_keep_list zone_name KEEP_LIST \<longleftrightarrow> KEEP_LIST = [])"
proof
  show "expand_keep_list zone_name (expand_keep_list zone_name KEEP_LIST) =
     map (\<lambda>x. x @ ''.'' @ with_trailing_dot zone_name @ ''.'' @ with_trailing_dot zone_name)
       KEEP_LIST"
    by (rule expand_keep_list_twice)
  show "expand_keep_list zone_name (expand_keep_list zone_name KEEP_LIST)
        = expand_keep_list zone_name KEEP_LIST \<longleftrightarrow> KEEP_LIST = []"
  proof
    assume eq: "expand_keep_list zone_name (expand_keep_list zone_name KEEP_LIST)
        = expand_keep_list zone_name KEEP_LIST"
    show "KEEP_LIST = []"
    proof (cases KEEP_LIST)
      case Nil
      then show ?thesis .
    next
      case (Cons x xs)
      with eq have "x @ ''.'' @ with_trailing_dot zone_name @ ''.'' @ with_trailing_dot zone_name
                    = x @ ''.'' @ with_trailing_dot zone_name"
        by (simp add: expand_keep_list_def Let_def)
      then have "length (x @ ''.'' @ with_trailing_dot zone_name @ ''.'' @ with_trailing_dot zone_name)
                    = length (x @ ''.'' @ with_trailing_dot zone_name)"
        by (rule arg_cong)
      then show ?thesis by simp
    qed
  next
    assume "KEEP_LIST = []"
    then show "expand_keep_list zone_name (expand_keep_list zone_name KEEP_LIST)
        = expand_keep_list zone_name KEEP_LIST"
      by (simp add: expand_keep_list_def)
  qed
qed

theorem C6_expand_twice_witness:
  "expand_keep_list ''example.com'' (expand_keep_list ''example.com'' [''www''])
     = [''www.example.com..example.com.'']"
  using C6_expand_twice [of "''example.com''" "[''www'']"]
  by (simp add: with_trailing_dot_def endswith_dot_def)

text \<open>
  The claim C6 as stated fails: expanding \<open>[www]\<close> twice for the zone \<open>example.com\<close>
  does not give the once expanded list.
\<close>

theorem C6_not_idempotent:
  "expand_keep_list ''example.com'' (expand_keep_list ''example.com'' [''www''])
     \<noteq> expand_keep_list ''example.com'' [''www'']"
  by (simp add: expand_keep_list_def with_trailing_dot_def endswith_dot_def)

text \<open>
  C8. Every request the change batcher submits, on the delete path and on the restore
  path, has a non-empty change list, and the zone id it is submitted under is the
  \<open>HostedZoneId\<close> of the alias target of the first record of its chunk, which is the
  record at index \<open>100 * i\<close> for the \<open>i\<close>-th request. The batcher takes no zone id as
  argument.
\<close>

theorem C8_zone_id_of_first_record:
  assumes "run \<in> {delete_records api records, restore_records api records}"
    and "i < length (fst run)"
  shows "i * 100 < length records \<and> Changes (ChangeBatch (fst run ! i)) \<noteq> []
    \<and> (\<exists>tgt. AliasTarget (records ! (i * 100)) = Some tgt
              \<and> req_HostedZoneId (fst run ! i) = HostedZoneId tgt)
    \<and> req_HostedZoneId (fst run ! i) =
        HostedZoneId (rrs_AliasTarget (ResourceRecordSet (hd (Changes (ChangeBatch (fst run ! i))))))"
proof -
  from assms(1) obtain act comment
    where run: "batch_loop act comment api records 0 0 [] = (fst run, snd run)"
    by (rule runs_cases)
  let ?chunk = "take 100 (drop (i * 100) records)"
  from batch_loop_run(2) [OF run] assms(2)
  have built: "build_request act comment ?chunk = Inr (fst run ! i)" by blast
  note ne = build_request_Inr(1) [OF built]
  then have inside: "i * 100 < length records" by (cases "i * 100 < length records") simp_all
  then have first: "hd ?chunk = records ! (i * 100)"
    by (simp add: hd_drop_conv_nth)
  from build_request_Inr(2) [OF built] ne
  have "Changes (ChangeBatch (fst run ! i)) \<noteq> []" by auto
  with inside first build_request_Inr(6) [OF built] build_request_first [OF built]
  show ?thesis by simp
qed

theorem C8_zone_id_of_first_record_witness:
  "req_HostedZoneId (fst (delete_records accept_all [rec_old, rec_keep]) ! 0) = ''ZELB''"
proof -
  have "length (fst (delete_records accept_all [rec_old, rec_keep])) = (2 + 99) div 100"
    using batch_loop_all_sent(2) [of "[rec_old, rec_keep]" accept_all DELETE]
    by (simp add: delete_records_def rec_old_def rec_keep_def accept_all_def)
  then have sent: "0 < length (fst (delete_records accept_all [rec_old, rec_keep]))"
    by simp
  have "delete_records accept_all [rec_old, rec_keep]
          \<in> {delete_records accept_all [rec_old, rec_keep],
              restore_records accept_all [rec_old, rec_keep]}"
    by simp
  from C8_zone_id_of_first_record [OF this, of 0] sent show ?thesis
    by (simp add: rec_old_def lb_alias_def)
qed

text \<open>
  C9. On an empty record list the change batcher submits nothing and returns normally.
  On any list it never ends in \<open>IndexError\<close>: the slice taken in the loop body, from
  a start index below the number of records, is not empty.
\<close>

theorem C9_no_index_error:
  "delete_records api [] = ([], Inr ()) \<and> restore_records api [] = ([], Inr ())
   \<and> snd (delete_records api records) \<noteq> Inl IndexError
   \<and> snd (restore_records api records) \<noteq> Inl IndexError
   \<and> (start_record < length records \<longrightarrow>
        slice records start_record (end_of (length records) start_record) \<noteq> [])"
proof -
  have empty: "batch_loop act comment api [] 0 0 [] = ([], Inr ())" for act comment
    by (subst batch_loop.simps) simp
  have no_ie: "snd (batch_loop act comment api records 0 0 []) \<noteq> Inl IndexError" for act comment
  proof
    assume ie: "snd (batch_loop act comment api records 0 0 []) = Inl IndexError"
    obtain sent out where run: "batch_loop act comment api records 0 0 [] = (sent, out)"
      by (cases "batch_loop act comment api records 0 0 []")
    with ie have "out = Inl IndexError" by simp
    with batch_loop_run(4) [OF run] show False by simp
  qed
  from empty no_ie slice_nonempty [of start_record records] show ?thesis
    by (simp add: delete_records_def restore_records_def)
qed

theorem C9_no_index_error_witness:
  "delete_records accept_all [] = ([], Inr ())
   \<and> snd (restore_records accept_all [rec_old]) \<noteq> Inl IndexError
   \<and> slice [rec_old, rec_keep] 0 (end_of 2 0) = [rec_old, rec_keep]"
  using C9_no_index_error [of accept_all "[rec_old]" 0]
  by (simp add: slice_def end_of_def batch_size_def)

text \<open>
  C10. Every record that the filter of the delete workflow puts in the to-delete list
  has an alias target, so its descriptor can be built, and \<open>delete_records\<close> on such
  a list never ends in \<open>KeyError\<close>.
\<close>

theorem C10_candidates_have_alias:
  "(\<forall>R \<in> set (candidates zone KEEP_LIST target_alias record_set).
       AliasTarget R \<noteq> None \<and> (\<exists>d. describe R = Inr d))
   \<and> snd (delete_records api (candidates zone KEEP_LIST target_alias record_set)) \<noteq> Inl KeyError"
proof
  show "\<forall>R \<in> set (candidates zone KEEP_LIST target_alias record_set).
       AliasTarget R \<noteq> None \<and> (\<exists>d. describe R = Inr d)"
    using candidates_have_alias by (auto simp: describe_Inr_iff)
  show "snd (delete_records api (candidates zone KEEP_LIST target_alias record_set)) \<noteq> Inl KeyError"
  proof
    let ?cands = "candidates zone KEEP_LIST target_alias record_set"
    assume ke: "snd (delete_records api ?cands) = Inl KeyError"
    obtain sent out where run:
      "batch_loop DELETE ''Deleting resource records'' api ?cands 0 0 [] = (sent, out)"
      by (cases "batch_loop DELETE ''Deleting resource records'' api ?cands 0 0 []")
    with ke have "out = Inl KeyError" by (simp add: delete_records_def)
    with batch_loop_run(4) [OF run] obtain r where "r \<in> set ?cands" "AliasTarget r = None"
      by auto
    with candidates_have_alias show False by blast
  qed
qed

theorem C10_candidates_have_alias_witness:
  "AliasTarget rec_old \<noteq> None
   \<and> snd (delete_records accept_all
        (candidates zone_ex [''www.example.com.''] ''old-lb.example.net''
           [rec_keep, rec_old, rec_plain])) \<noteq> Inl KeyError"
proof -
  have "rec_old \<in> set (candidates zone_ex [''www.example.com.''] ''old-lb.example.net''
           [rec_keep, rec_old, rec_plain])"
    by (simp add: candidates_filter zone_ex_def rec_old_def rec_keep_def rec_plain_def
        lb_alias_def with_trailing_dot_def endswith_dot_def)
  with C10_candidates_have_alias [of zone_ex "[''www.example.com.'']" "''old-lb.example.net''"
      "[rec_keep, rec_old, rec_plain]" accept_all]
  show ?thesis by blast
qed

text \<open>
  C2, as the code has it. The change batcher, on the delete path and on the restore
  path, submits at most \<open>ceil(N/100)\<close> batches for a list of \<open>N\<close> records. Every
  batch submitted has between 1 and 100 change entries, the \<open>i\<close>-th batch has
  \<open>min 100 (N - 100 * i)\<close> of them, and the descriptors of the batches submitted,
  concatenated in submission order, are the descriptors of the first \<open>100 * k\<close> records
  in order, \<open>k\<close> being the number of batches submitted. When every record has an alias
  target and the provider accepts every submission, the batcher returns normally, the
  number of batches is exactly \<open>ceil(N/100)\<close>, and the concatenated descriptors are those
  of the whole list: 150 records are restored in two batches of 100 and 50.
\<close>

theorem C2_batches:
  assumes "run \<in> {delete_records api records, restore_records api records}"
  shows "length (fst run) \<le> (length records + 99) div 100
    \<and> (\<forall>q \<in> set (fst run). 1 \<le> length (Changes (ChangeBatch q))
                            \<and> length (Changes (ChangeBatch q)) \<le> 100)
    \<and> (\<forall>i < length (fst run).
          length (Changes (ChangeBatch (fst run ! i))) = min 100 (length records - i * 100))
    \<and> map Inr (concat (map descriptors (fst run)))
        = map describe (take (length (fst run) * 100) records)
    \<and> ((\<forall>r \<in> set records. AliasTarget r \<noteq> None) \<and> (\<forall>i q. api i q) \<longrightarrow>
         snd run = Inr ()
         \<and> length (fst run) = (length records + 99) div 100
         \<and> map Inr (concat (map descriptors (fst run))) = map describe records)"
proof -
  from assms obtain act comment
    where run: "batch_loop act comment api records 0 0 [] = (fst run, snd run)"
    by (rule runs_cases)
  note general = batch_loop_run(1) [OF run] batch_loop_batches(2,1,3) [OF run]
  have "snd run = Inr ()
         \<and> length (fst run) = (length records + 99) div 100
         \<and> map Inr (concat (map descriptors (fst run))) = map describe records"
    if ok: "(\<forall>r \<in> set records. AliasTarget r \<noteq> None) \<and> (\<forall>i q. api i q)"
  proof -
    from ok batch_loop_all_sent [of records api act comment] run
    have fin: "snd run = Inr ()" and len: "length (fst run) = (length records + 99) div 100"
      by simp_all
    have "length records \<le> ((length records + 99) div 100) * 100" by arith
    with len have "take (length (fst run) * 100) records = records" by simp
    with general(4) fin len show ?thesis by simp
  qed
  with general show ?thesis by blast
qed

theorem C2_batches_witness:
  "\<exists>sent. restore_records accept_all (replicate 150 rec_old) = (sent, Inr ())
     \<and> map (\<lambda>q. length (Changes (ChangeBatch q))) sent = [100, 50]"
proof -
  let ?run = "restore_records accept_all (replicate 150 rec_old)"
  have "?run \<in> {delete_records accept_all (replicate 150 rec_old), ?run}" by simp
  from C2_batches [OF this]
  have sizes: "\<forall>i < length (fst ?run).
          length (Changes (ChangeBatch (fst ?run ! i))) = min 100 (150 - i * 100)"
    and fin: "snd ?run = Inr ()" and len: "length (fst ?run) = 2"
    by (simp_all add: accept_all_def rec_old_def)
  from len obtain a b where ab: "fst ?run = [a, b]"
    by (auto simp: numeral_2_eq_2 length_Suc_conv)
  from sizes ab have at: "length (Changes (ChangeBatch ([a, b] ! i))) = min 100 (150 - i * 100)"
    if "i < 2" for i using that by simp
  from at [of 0] at [of 1]
  have "length (Changes (ChangeBatch a)) = 100" "length (Changes (ChangeBatch b)) = 50"
    by simp_all
  with ab fin have "?run = ([a, b], Inr ())
     \<and> map (\<lambda>q. length (Changes (ChangeBatch q))) [a, b] = [100, 50]"
    by (simp add: prod_eq_iff)
  then show ?thesis by (rule exI)
qed

text \<open>
  The claim C2 as stated, for every input list, fails: restoring a list of one record
  without alias target ends in \<open>KeyError\<close> with no batch submitted, and with a
  provider that rejects the first batch, deleting 150 records leads to one submission,
  not two.
\<close>

theorem C2_fewer_batches:
  "length (fst (restore_records accept_all [rec_plain])) \<noteq> (length [rec_plain] + 99) div 100
   \<and> length (fst (delete_records reject_all (replicate 150 rec_old)))
       \<noteq> (length (replicate 150 rec_old) + 99) div 100"
proof
  have "restore_records accept_all [rec_plain] = ([], Inl KeyError)"
    unfolding restore_records_def
    by (subst batch_loop.simps)
       (simp add: build_request_def first_zone_id_def slice_def end_of_def batch_size_def
          rec_plain_def)
  then show "length (fst (restore_records accept_all [rec_plain]))
               \<noteq> (length [rec_plain] + 99) div 100"
    by simp
  have "\<exists>req. batch_loop DELETE ''Deleting resource records'' reject_all
                (replicate 150 rec_old) 0 0 [] = ([req], Inl SystemExit)"
    by (rule batch_loop_rejected) (simp_all add: reject_all_def rec_old_def)
  then show "length (fst (delete_records reject_all (replicate 150 rec_old)))
       \<noteq> (length (replicate 150 rec_old) + 99) div 100"
    by (auto simp: delete_records_def)
qed

text \<open>
  C7, as the code has it. When a page fetch fails, the record lister returns the
  records of all the pages fetched before the failure, in order: the empty list when
  the first fetch fails, and otherwise a prefix of the zone's records that is not empty
  unless those pages are. Nothing accumulated is discarded. When no fetch fails it
  returns the records of all the pages.
\<close>

theorem C7_partial_listing:
  "(list_resource_record_sets p zone_id None = ClientErrorRaised \<longrightarrow>
      get_all_records_in_zone p zone_id = Some [])
   \<and> (list_resource_record_sets p zone_id None = Reply first_set \<and> fetched p zone_id first_set rest
       \<and> IsTruncated (last (first_set # rest))
       \<and> list_resource_record_sets p zone_id (Some (NextRecordName (last (first_set # rest))))
           = ClientErrorRaised \<longrightarrow>
      get_all_records_in_zone p zone_id
        = Some (concat (map ResourceRecordSets (first_set # rest))))
   \<and> (list_resource_record_sets p zone_id None = Reply first_set \<and> fetched p zone_id first_set rest
       \<and> \<not> IsTruncated (last (first_set # rest)) \<longrightarrow>
      get_all_records_in_zone p zone_id
        = Some (concat (map ResourceRecordSets (first_set # rest))))"
  by (auto simp: get_all_records_in_zone_def page_loop_fetched)

theorem C7_partial_listing_witness:
  "get_all_records_in_zone (two_pages False) ''Z1'' = Some [rec_keep, rec_old]
   \<and> get_all_records_in_zone (two_pages True) ''Z1'' = Some [rec_keep, rec_old, rec_plain]"
proof
  let ?first = "\<lparr>ResourceRecordSets = [rec_keep, rec_old], IsTruncated = True,
                  NextRecordName = ''ip.example.com.''\<rparr>"
  let ?second = "\<lparr>ResourceRecordSets = [rec_plain], IsTruncated = False, NextRecordName = []\<rparr>"
  from C7_partial_listing [of "two_pages False" "''Z1''" ?first "[]"]
  show "get_all_records_in_zone (two_pages False) ''Z1'' = Some [rec_keep, rec_old]"
    by (simp add: two_pages_def)
  from C7_partial_listing [of "two_pages True" "''Z1''" ?first "[?second]"]
  show "get_all_records_in_zone (two_pages True) ''Z1'' = Some [rec_keep, rec_old, rec_plain]"
    by (simp add: two_pages_def)
qed

text \<open>
  The claim C7 as stated fails: for a zone of three records listed in two pages, a
  failure of the second fetch makes the lister return the two records of the first
  page, which is neither the complete record set nor an empty result.
\<close>

theorem C7_prefix_returned:
  "get_all_records_in_zone (two_pages True) ''Z1'' = Some [rec_keep, rec_old, rec_plain]
   \<and> get_all_records_in_zone (two_pages False) ''Z1'' = Some [rec_keep, rec_old]
   \<and> [rec_keep, rec_old] \<noteq> [] \<and> [rec_keep, rec_old] \<noteq> [rec_keep, rec_old, rec_plain]"
  by (simp add: get_all_records_in_zone_def two_pages_def page_loop.simps)

text \<open>
  C3. Every run of the delete workflow that returns either found no zone and did
  nothing, or created the temporary file and ended in \<open>TypeError\<close> at the dump, with
  nothing submitted, or did, in this order: create the temporary file, dump the filtered
  candidate records to it, rename it to its final path, and only then submit change
  batches, all of them deletions and none in a dry run. After such a run the final path
  holds the dump of exactly the candidates. A run that does not return is one whose
  record listing never ends, before any of this.
\<close>

theorem C3_snapshot_before_delete:
  "case r53_cleanup p y temp_name KEEP_LIST zone_name target_alias dryrun w of
     None \<Rightarrow>
       (\<exists>zone. get_hosted_zone_by_name p zone_name = Some zone
              \<and> get_all_records_in_zone p (zone_Id zone) = None)
   | Some (w', outcome) \<Rightarrow>
       (get_hosted_zone_by_name p zone_name = None \<and> w' = w \<and> outcome = Inl TypeError)
       \<or> (\<exists>zone record_set doc.
            get_hosted_zone_by_name p zone_name = Some zone
            \<and> get_all_records_in_zone p (zone_Id zone) = Some record_set
            \<and> safe_dump y (candidates zone KEEP_LIST target_alias record_set) = Text doc
            \<and> events w' = events w @ [Created temp_name]
            \<and> outcome = Inl TypeError)
       \<or> (\<exists>zone record_set doc sent.
            get_hosted_zone_by_name p zone_name = Some zone
            \<and> get_all_records_in_zone p (zone_Id zone) = Some record_set
            \<and> safe_dump y (candidates zone KEEP_LIST target_alias record_set) = Bytes doc
            \<and> events w' =
                events w
                @ [Created temp_name, Dumped temp_name doc,
                   Renamed temp_name (temp_name @ ''.yaml'')]
                @ map Submitted sent
            \<and> files w' (temp_name @ ''.yaml'') = Some (Document doc)
            \<and> (\<forall>q \<in> set sent. \<forall>c \<in> set (Changes (ChangeBatch q)). Action c = DELETE)
            \<and> (dryrun \<longrightarrow> sent = []))"
proof (cases "get_hosted_zone_by_name p zone_name")
  case None
  then show ?thesis by (simp add: r53_cleanup_def)
next
  case (Some zone)
  note zone = this
  show ?thesis
  proof (cases "get_all_records_in_zone p (zone_Id zone)")
    case None
    with zone show ?thesis by (simp add: r53_cleanup_def)
  next
    case (Some record_set)
    let ?cands = "candidates zone KEEP_LIST target_alias record_set"
    show ?thesis
    proof (cases "safe_dump y ?cands")
      case (Text doc)
      let ?w' = "\<lparr>files = (files w)(temp_name \<mapsto> Empty),
                   events = events w @ [Created temp_name]\<rparr>"
      have run: "r53_cleanup p y temp_name KEEP_LIST zone_name target_alias dryrun w
                   = Some (?w', Inl TypeError)"
        by (simp add: r53_cleanup_found [OF zone Some] write_snapshot_Text [OF Text])
      from zone Some Text
      have "\<exists>zone record_set doc.
            get_hosted_zone_by_name p zone_name = Some zone
            \<and> get_all_records_in_zone p (zone_Id zone) = Some record_set
            \<and> safe_dump y (candidates zone KEEP_LIST target_alias record_set) = Text doc
            \<and> events ?w' = events w @ [Created temp_name]
            \<and> (Inl TypeError :: error + unit) = Inl TypeError"
        by simp
      then show ?thesis
        by (simp only: run option.case prod.case simp_thms)
    next
      case (Bytes doc)
      let ?sent = "if dryrun then []
                   else fst (delete_records (change_resource_record_sets p) ?cands)"
      let ?out = "if dryrun then Inr ()
                  else snd (delete_records (change_resource_record_sets p) ?cands)"
      let ?w2 = "\<lparr>files = ((files w)(temp_name := None))(temp_name @ ''.yaml'' \<mapsto> Document doc),
                   events = events w @ [Created temp_name, Dumped temp_name doc,
                                        Renamed temp_name (temp_name @ ''.yaml'')]\<rparr>"
      let ?w' = "submit_all ?sent ?w2"
      have run: "r53_cleanup p y temp_name KEEP_LIST zone_name target_alias dryrun w
                   = Some (?w', ?out)"
        by (simp add: r53_cleanup_found [OF zone Some] write_snapshot_Bytes [OF Bytes])
      have ev: "events ?w' = events w
                @ [Created temp_name, Dumped temp_name doc,
                   Renamed temp_name (temp_name @ ''.yaml'')]
                @ map Submitted ?sent"
        by (simp add: submit_all_def)
      have fl: "files ?w' (temp_name @ ''.yaml'') = Some (Document doc)"
        by (simp add: submit_all_def)
      have act: "\<forall>q \<in> set ?sent. \<forall>c \<in> set (Changes (ChangeBatch q)). Action c = DELETE"
        using delete_records_actions by auto
      have "dryrun \<longrightarrow> ?sent = []" by simp
      with ev fl act zone Some Bytes
      have "\<exists>zone record_set doc sent.
            get_hosted_zone_by_name p zone_name = Some zone
            \<and> get_all_records_in_zone p (zone_Id zone) = Some record_set
            \<and> safe_dump y (candidates zone KEEP_LIST target_alias record_set) = Bytes doc
            \<and> events ?w' =
                events w
                @ [Created temp_name, Dumped temp_name doc,
                   Renamed temp_name (temp_name @ ''.yaml'')]
                @ map Submitted sent
            \<and> files ?w' (temp_name @ ''.yaml'') = Some (Document doc)
            \<and> (\<forall>q \<in> set sent. \<forall>c \<in> set (Changes (ChangeBatch q)). Action c = DELETE)
            \<and> (dryrun \<longrightarrow> sent = [])"
        by blast
      then show ?thesis
        by (simp only: run option.case prod.case simp_thms)
    qed
  qed
qed

theorem C3_snapshot_before_delete_witness:
  "\<exists>w' outcome sent.
     r53_cleanup (two_pages True) yaml_py2 ''/tmp/tmpab12'' [''www.example.com.'']
       ''example.com'' ''old-lb.example.net'' False empty_world = Some (w', outcome)
     \<and> events w' =
         [Created ''/tmp/tmpab12'', Dumped ''/tmp/tmpab12'' [rec_old],
          Renamed ''/tmp/tmpab12'' ''/tmp/tmpab12.yaml'']
         @ map Submitted sent
     \<and> files w' ''/tmp/tmpab12.yaml'' = Some (Document [rec_old])"
proof -
  have dump: "safe_dump yaml_py2 [rec_old] = Bytes [rec_old]"
    by (simp add: yaml_py2_def)
  have "\<exists>w' outcome.
    r53_cleanup (two_pages True) yaml_py2 ''/tmp/tmpab12'' [''www.example.com.'']
       ''example.com'' ''old-lb.example.net'' False empty_world = Some (w', outcome)"
    by (simp add: r53_cleanup_found [OF ex_zone ex_listing] ex_candidates
        write_snapshot_Bytes [OF dump])
  then obtain w' outcome where run:
    "r53_cleanup (two_pages True) yaml_py2 ''/tmp/tmpab12'' [''www.example.com.'']
       ''example.com'' ''old-lb.example.net'' False empty_world = Some (w', outcome)"
    by blast
  from C3_snapshot_before_delete [where p = "two_pages True" and y = yaml_py2
      and temp_name = "''/tmp/tmpab12''" and KEEP_LIST = "[''www.example.com.'']"
      and zone_name = "''example.com''" and target_alias = "''old-lb.example.net''"
      and dryrun = False and w = empty_world]
  have "\<exists>sent. events w' =
         [Created ''/tmp/tmpab12'', Dumped ''/tmp/tmpab12'' [rec_old],
          Renamed ''/tmp/tmpab12'' ''/tmp/tmpab12.yaml'']
         @ map Submitted sent
     \<and> files w' ''/tmp/tmpab12.yaml'' = Some (Document [rec_old])"
    unfolding run
    by (auto simp: ex_zone ex_listing ex_candidates yaml_py2_def empty_world_def)
  with run show ?thesis by blast
qed

text \<open>
  C4. What the restore driver reads back depends on what the YAML library hands to the
  binary-mode temporary file of the snapshot writer. Handed text, which is what the
  library does under Python 3, the writer ends in \<open>TypeError\<close> for every record list,
  the empty one included: the temporary file stays empty under its temporary name,
  restoring from it ends in \<open>TypeError\<close>, and the final path is not written, so that
  restoring from it ends the process when it did not exist before. No record list comes
  back. Handed bytes, the writer leaves the document at the final path, and the restore
  driver reads from that path what the library's \<open>load\<close> makes of that document and
  replays it.
\<close>

theorem C4_snapshot_round_trip:
  "case safe_dump y to_delete of
     Text doc \<Rightarrow>
       (\<exists>w0. write_snapshot y temp_name to_delete w = (w0, Inl TypeError)
          \<and> files w0 = (files w)(temp_name \<mapsto> Empty)
          \<and> read_records y temp_name w0 = Inl TypeError
          \<and> restore_deleted_records p y temp_name w0 = (w0, Inl TypeError)
          \<and> (files w (temp_name @ ''.yaml'') = None \<longrightarrow>
               read_records y (temp_name @ ''.yaml'') w0 = Inl SystemExit
               \<and> restore_deleted_records p y (temp_name @ ''.yaml'') w0 = (w0, Inl SystemExit)))
   | Bytes doc \<Rightarrow>
       (\<exists>w2. write_snapshot y temp_name to_delete w = (w2, Inr (temp_name @ ''.yaml''))
          \<and> files w2 (temp_name @ ''.yaml'') = Some (Document doc)
          \<and> read_records y (temp_name @ ''.yaml'') w2 =
              (case load y doc of None \<Rightarrow> Inl TypeError | Some records \<Rightarrow> Inr records)
          \<and> restore_deleted_records p y (temp_name @ ''.yaml'') w2 =
              (case load y doc of
                 None \<Rightarrow> (w2, Inl TypeError)
               | Some records \<Rightarrow>
                   (submit_all (fst (restore_records (change_resource_record_sets p) records)) w2,
                    snd (restore_records (change_resource_record_sets p) records))))"
proof (cases "safe_dump y to_delete")
  case (Text doc)
  from snapshot_not_written [OF Text, where temp_name = temp_name and w = w and p = p]
  show ?thesis
    unfolding Text emitted.case .
next
  case (Bytes doc)
  from snapshot_written [OF Bytes, where temp_name = temp_name and w = w and p = p]
  show ?thesis
    unfolding Bytes emitted.case .
qed

theorem C4_snapshot_round_trip_witness:
  "(\<exists>w0. write_snapshot yaml_py3 ''/tmp/tmpab12'' [] empty_world = (w0, Inl TypeError)
      \<and> files w0 ''/tmp/tmpab12'' = Some Empty
      \<and> read_records yaml_py3 ''/tmp/tmpab12'' w0 = Inl TypeError
      \<and> read_records yaml_py3 ''/tmp/tmpab12.yaml'' w0 = Inl SystemExit)
   \<and> (\<exists>w0. write_snapshot yaml_py3 ''/tmp/tmpab12'' [rec_old, rec_keep] empty_world
             = (w0, Inl TypeError)
      \<and> files w0 ''/tmp/tmpab12'' = Some Empty
      \<and> restore_deleted_records (two_pages True) yaml_py3 ''/tmp/tmpab12'' w0
          = (w0, Inl TypeError)
      \<and> restore_deleted_records (two_pages True) yaml_py3 ''/tmp/tmpab12.yaml'' w0
          = (w0, Inl SystemExit))"
proof
  from C4_snapshot_round_trip [where y = yaml_py3 and to_delete = "[]"
      and temp_name = "''/tmp/tmpab12''" and w = empty_world and p = "two_pages True"]
  show "\<exists>w0. write_snapshot yaml_py3 ''/tmp/tmpab12'' [] empty_world = (w0, Inl TypeError)
      \<and> files w0 ''/tmp/tmpab12'' = Some Empty
      \<and> read_records yaml_py3 ''/tmp/tmpab12'' w0 = Inl TypeError
      \<and> read_records yaml_py3 ''/tmp/tmpab12.yaml'' w0 = Inl SystemExit"
    by (auto simp: yaml_py3_def empty_world_def)
  from C4_snapshot_round_trip [where y = yaml_py3 and to_delete = "[rec_old, rec_keep]"
      and temp_name = "''/tmp/tmpab12''" and w = empty_world and p = "two_pages True"]
  show "\<exists>w0. write_snapshot yaml_py3 ''/tmp/tmpab12'' [rec_old, rec_keep] empty_world
             = (w0, Inl TypeError)
      \<and> files w0 ''/tmp/tmpab12'' = Some Empty
      \<and> restore_deleted_records (two_pages True) yaml_py3 ''/tmp/tmpab12'' w0
          = (w0, Inl TypeError)
      \<and> restore_deleted_records (two_pages True) yaml_py3 ''/tmp/tmpab12.yaml'' w0
          = (w0, Inl SystemExit)"
    by (auto simp: yaml_py3_def empty_world_def)
qed

text \<open>
  C5. In dry-run mode, once the zone is found and its records are listed, the delete
  workflow submits no change batch. Whether it leaves a snapshot depends on what the
  YAML library hands to the binary-mode temporary file. Handed bytes, the run returns
  normally and the final path holds the dump of exactly the filter's candidates, the
  creation, the dump and the rename being the only events. Handed text, which is what
  the library does under Python 3, the run ends in \<open>TypeError\<close> at the dump: the
  temporary file is left empty under its temporary name, nothing is renamed, and no
  snapshot is produced. With three records of which one passes the filter, the
  snapshot holds that one record in the first case and does not exist in the second.
\<close>

theorem C5_dry_run:
  assumes "get_hosted_zone_by_name p zone_name = Some zone"
    and "get_all_records_in_zone p (zone_Id zone) = Some record_set"
  shows "\<exists>w' outcome.
     r53_cleanup p y temp_name KEEP_LIST zone_name target_alias True w = Some (w', outcome)
     \<and> (case safe_dump y (candidates zone KEEP_LIST target_alias record_set) of
          Text doc \<Rightarrow>
            outcome = Inl TypeError
            \<and> files w' = (files w)(temp_name \<mapsto> Empty)
            \<and> events w' = events w @ [Created temp_name]
        | Bytes doc \<Rightarrow>
            outcome = Inr ()
            \<and> files w' = ((files w)(temp_name := None))(temp_name @ ''.yaml'' \<mapsto> Document doc)
            \<and> events w' =
                events w
                @ [Created temp_name, Dumped temp_name doc,
                   Renamed temp_name (temp_name @ ''.yaml'')])"
proof (cases "safe_dump y (candidates zone KEEP_LIST target_alias record_set)")
  case (Text doc)
  then show ?thesis
    by (simp add: r53_cleanup_found [OF assms] write_snapshot_Text [OF Text])
next
  case (Bytes doc)
  then show ?thesis
    by (simp add: r53_cleanup_found [OF assms] write_snapshot_Bytes [OF Bytes] submit_all_Nil)
qed

theorem C5_dry_run_witness:
  "(\<exists>w'. r53_cleanup (two_pages True) yaml_py3 ''/tmp/tmpab12'' [''www.example.com.'']
        ''example.com'' ''old-lb.example.net'' True empty_world = Some (w', Inl TypeError)
      \<and> files w' ''/tmp/tmpab12.yaml'' = None
      \<and> files w' ''/tmp/tmpab12'' = Some Empty
      \<and> events w' = [Created ''/tmp/tmpab12''])
   \<and> (\<exists>w'. r53_cleanup (two_pages True) yaml_py2 ''/tmp/tmpab12'' [''www.example.com.'']
        ''example.com'' ''old-lb.example.net'' True empty_world = Some (w', Inr ())
      \<and> files w' ''/tmp/tmpab12.yaml'' = Some (Document [rec_old])
      \<and> events w' =
          [Created ''/tmp/tmpab12'', Dumped ''/tmp/tmpab12'' [rec_old],
           Renamed ''/tmp/tmpab12'' ''/tmp/tmpab12.yaml''])"
proof
  from C5_dry_run [OF ex_zone ex_listing, where y = yaml_py3
      and temp_name = "''/tmp/tmpab12''" and KEEP_LIST = "[''www.example.com.'']"
      and target_alias = "''old-lb.example.net''" and w = empty_world]
  show "\<exists>w'. r53_cleanup (two_pages True) yaml_py3 ''/tmp/tmpab12'' [''www.example.com.'']
        ''example.com'' ''old-lb.example.net'' True empty_world = Some (w', Inl TypeError)
      \<and> files w' ''/tmp/tmpab12.yaml'' = None
      \<and> files w' ''/tmp/tmpab12'' = Some Empty
      \<and> events w' = [Created ''/tmp/tmpab12'']"
    by (auto simp: ex_candidates yaml_py3_def empty_world_def)
  from C5_dry_run [OF ex_zone ex_listing, where y = yaml_py2
      and temp_name = "''/tmp/tmpab12''" and KEEP_LIST = "[''www.example.com.'']"
      and target_alias = "''old-lb.example.net''" and w = empty_world]
  show "\<exists>w'. r53_cleanup (two_pages True) yaml_py2 ''/tmp/tmpab12'' [''www.example.com.'']
        ''example.com'' ''old-lb.example.net'' True empty_world = Some (w', Inr ())
      \<and> files w' ''/tmp/tmpab12.yaml'' = Some (Document [rec_old])
      \<and> events w' =
          [Created ''/tmp/tmpab12'', Dumped ''/tmp/tmpab12'' [rec_old],
           Renamed ''/tmp/tmpab12'' ''/tmp/tmpab12.yaml'']"
    by (auto simp: ex_candidates yaml_py2_def empty_world_def)
qed

end
